theory Spec2Isabelle
  imports Main "HOL-Library.Word" "HOL-Library.Signed_Division"
begin

section \<open>The goroutine worker pool of pkg/concurrency/goroutine\_pool.go\<close>

text \<open>
  The pool is embedded as explicit state passing over a record of the fields of
  \<^verbatim>\<open>WorkerPool\<close>. The worker goroutines spawned by \<^verbatim>\<open>Start\<close> are kept in the state as
  a list of program points; a goroutine takes one step at a time, and every \<^verbatim>\<open>select\<close>
  statement picks among the cases that can proceed by a number supplied from outside
  (the pseudo-random choice of the Go runtime). A call that waits (\<^verbatim>\<open>wg.Wait\<close>, a
  \<^verbatim>\<open>select\<close> without \<^verbatim>\<open>default\<close>) is given the list of things the other goroutines do
  while it waits.
\<close>

subsection \<open>Values of the Go runtime and standard library\<close>

text \<open>\<^verbatim>\<open>time.Duration\<close> is an \<^verbatim>\<open>int64\<close> count of nanoseconds; its arithmetic wraps.\<close>

type_synonym Duration = "64 word"

text \<open>
  A value of the interface type \<^verbatim>\<open>error\<close>. \<^verbatim>\<open>errors.New\<close> and \<^verbatim>\<open>fmt.Errorf\<close> (with no
  \<^verbatim>\<open>%w\<close> verb) both build a \<^verbatim>\<open>*errors.errorString\<close>; \<^verbatim>\<open>context.DeadlineExceeded\<close> is the
  one value of the type \<^verbatim>\<open>context.deadlineExceededError\<close>; any other error type a
  unit of work may define is \<open>customError\<close>, with the name of its type and its message.
\<close>

datatype error =
    errorString string
  | deadlineExceededError
  | customError string string

fun Error :: "error \<Rightarrow> string" where
  "Error (errorString s) = s"
| "Error deadlineExceededError = ''context deadline exceeded''"
| "Error (customError t s) = s"

text \<open>The dynamic type of an error value, which a type switch or \<^verbatim>\<open>errors.As\<close> tests.\<close>

fun dynamicType :: "error \<Rightarrow> string" where
  "dynamicType (errorString s) = ''*errors.errorString''"
| "dynamicType deadlineExceededError = ''context.deadlineExceededError''"
| "dynamicType (customError t s) = t"

definition Canceled :: error where
  "Canceled = errorString ''context canceled''"

definition DeadlineExceeded :: error where
  "DeadlineExceeded = deadlineExceededError"

text \<open>The decimal rendering of the verb \<^verbatim>\<open>%d\<close>.\<close>

definition digit :: "nat \<Rightarrow> char" where
  "digit n = ''0123456789'' ! n"

function decimal :: "nat \<Rightarrow> string" where
  "decimal n = (if n < 10 then [digit n] else decimal (n div 10) @ [digit (n mod 10)])"
  by pat_completeness auto
termination
  by (relation "measure (\<lambda>n. n)") auto

declare decimal.simps [simp del]

definition itoa :: "int \<Rightarrow> string" where
  "itoa i = (if i < 0 then ''-'' @ decimal (nat (- i)) else decimal (nat i))"

definition Errorf :: "string \<Rightarrow> error" where
  "Errorf s = errorString s"

text \<open>
  A \<^verbatim>\<open>context.Context\<close>: the error it reports once it is done (\<open>None\<close> while it is not
  done) and the time that was left until its deadline when it was made (\<open>None\<close> for a
  context without a deadline). \<^verbatim>\<open>Done()\<close> is closed exactly when \<^verbatim>\<open>Err()\<close> is not nil.
\<close>

record Context =
  ctxErr :: "error option"
  ctxTimeout :: "Duration option"

definition Done :: "Context \<Rightarrow> bool" where
  "Done c = (ctxErr c \<noteq> None)"

definition WithCancel :: "Context \<Rightarrow> Context" where
  "WithCancel parent = parent"

text \<open>The cancel function of a context: the first cancellation sets the error.\<close>

definition cancel :: "Context \<Rightarrow> Context" where
  "cancel c = (if ctxErr c = None then c\<lparr>ctxErr := Some Canceled\<rparr> else c)"

text \<open>The timer of a context made by \<^verbatim>\<open>WithTimeout\<close> fires.\<close>

definition expire :: "Context \<Rightarrow> Context" where
  "expire c = (if ctxErr c = None then c\<lparr>ctxErr := Some DeadlineExceeded\<rparr> else c)"

text \<open>
  \<^verbatim>\<open>context.WithTimeout\<close>: a parent that is done passes its error on at once; a timeout
  that is not positive has already passed; the earlier deadline wins.
\<close>

definition WithTimeout :: "Context \<Rightarrow> Duration \<Rightarrow> Context" where
  "WithTimeout parent d =
     \<lparr>ctxErr = (case ctxErr parent of
                  Some e \<Rightarrow> Some e
                | None \<Rightarrow> (case ctxTimeout parent of
                     Some p \<Rightarrow> if p <s d then None
                                else if d \<le>s 0 then Some DeadlineExceeded else None
                   | None \<Rightarrow> if d \<le>s 0 then Some DeadlineExceeded else None)),
      ctxTimeout = (case ctxTimeout parent of
                      None \<Rightarrow> Some d
                    | Some p \<Rightarrow> if p <s d then Some p else Some d)\<rparr>"

text \<open>A buffered channel: its buffer (oldest element first), capacity and closed flag.\<close>

record 'a chan =
  chanBuf :: "'a list"
  chanCap :: nat
  chanClosed :: bool

definition make_chan :: "nat \<Rightarrow> 'a chan" where
  "make_chan n = \<lparr>chanBuf = [], chanCap = n, chanClosed = False\<rparr>"

text \<open>
  A send can proceed when the buffer has room, and also on a closed channel, where it
  panics. A receive can proceed when the buffer holds an element or the channel is closed.
\<close>

definition can_send :: "'a chan \<Rightarrow> bool" where
  "can_send c = (chanClosed c \<or> length (chanBuf c) < chanCap c)"

definition can_recv :: "'a chan \<Rightarrow> bool" where
  "can_recv c = (chanBuf c \<noteq> [] \<or> chanClosed c)"

text \<open>
  \<^verbatim>\<open>select\<close>: of the cases that can proceed one is chosen (by \<open>choice\<close>); with none,
  the \<^verbatim>\<open>default\<close> case runs if there is one, and the goroutine waits otherwise.
\<close>

definition select_case :: "'c list \<Rightarrow> nat \<Rightarrow> 'c option" where
  "select_case ready choice =
     (if ready = [] then None else Some (ready ! (choice mod length ready)))"

text \<open>What a call does: it returns, it is still waiting, or it panics.\<close>

datatype 'a outcome = Returns 'a | Blocks | Panics string

subsection \<open>Job, Result, WorkerPool\<close>

text \<open>
  A unit of work is known by what its call does with the context it is given: it returns
  data (\<open>None\<close> is nil), an error (\<open>None\<close> is nil) and takes some time, or it never returns.
\<close>

datatype 'd taskrun = Return "'d option" "error option" Duration | NeverReturns

record 'd Job =
  ID :: int
  TaskFunc :: "Context \<Rightarrow> 'd taskrun"
  Timeout :: Duration

record 'd Result =
  JobID :: int
  Data :: "'d option"
  Error_of :: "error option"
  Duration_of :: Duration

text \<open>The zero value \<^verbatim>\<open>Result{}\<close>, which a receive from a closed, drained channel yields.\<close>

definition zero_Result :: "'d Result" where
  "zero_Result = \<lparr>JobID = 0, Data = None, Error_of = None, Duration_of = 0\<rparr>"

text \<open>The program points of \<^verbatim>\<open>worker\<close>.\<close>

datatype 'd goroutine =
    AtSelect
  | InExecuteJob "'d Job"
  | AtDeliver "'d Result"
  | Exited

text \<open>
  The fields of \<^verbatim>\<open>WorkerPool\<close>. \<open>wg\<close> is the counter of the wait group, \<open>goroutines\<close>
  the worker goroutines started so far. The mutex \<open>mu\<close> is not a field: \<^verbatim>\<open>Start\<close>,
  \<^verbatim>\<open>Submit\<close> and \<^verbatim>\<open>Stop\<close> hold it for their whole body and so run one at a time.
\<close>

record 'd WorkerPool =
  workers :: int
  jobQueue :: "'d Job chan"
  results :: "'d Result chan"
  wg :: int
  ctx :: Context
  started :: bool
  goroutines :: "'d goroutine list"

text \<open>The type \<^verbatim>\<open>int\<close> has 64 bits; its arithmetic wraps.\<close>

definition int64 :: "int \<Rightarrow> int" where
  "int64 k = signed_take_bit 63 k"

text \<open>
  What the runtime can allocate (the values of 64-bit Linux): \<open>maxAlloc\<close> bytes at most,
  \<open>hchanSize\<close> of them for the header of a channel. A Job takes 24 bytes (an \<^verbatim>\<open>int\<close>, a
  function value, a Duration), a Result 48 (an \<^verbatim>\<open>int\<close>, two interface values, a Duration).
  An allocation within these bounds is taken to succeed.
\<close>

definition maxAlloc :: int where
  "maxAlloc = 2 ^ 48"

definition hchanSize :: int where
  "hchanSize = 96"

definition sizeof_Job :: int where
  "sizeof_Job = 24"

definition sizeof_Result :: int where
  "sizeof_Result = 48"

text \<open>\<^verbatim>\<open>make(chan T, size)\<close> panics when the size is negative or the buffer too large.\<close>

definition makechan :: "int \<Rightarrow> int \<Rightarrow> 'a chan outcome" where
  "makechan elemsize n =
     (if n < 0 \<or> maxAlloc - hchanSize < elemsize * n
      then Panics ''makechan: size out of range''
      else Returns (make_chan (nat n)))"

text \<open>
  \<^verbatim>\<open>NewWorkerPool\<close>; \<open>numCPU\<close> is what \<^verbatim>\<open>runtime.NumCPU()\<close> returns (at least 1). The two
  channels are made in the order of the fields, from \<^verbatim>\<open>workers*10\<close> and \<^verbatim>\<open>workers*2\<close>
  computed in \<^verbatim>\<open>int\<close>.
\<close>

definition NewWorkerPool :: "int \<Rightarrow> Context \<Rightarrow> int \<Rightarrow> 'd WorkerPool outcome" where
  "NewWorkerPool numCPU c n =
     (let n = (if n \<le> 0 then numCPU else n) in
      case makechan sizeof_Job (int64 (n * 10)) of
        Returns jq \<Rightarrow>
          (case makechan sizeof_Result (int64 (n * 2)) of
             Returns rq \<Rightarrow>
               Returns \<lparr>workers = n,
                        jobQueue = jq,
                        results = rq,
                        wg = 0,
                        ctx = WithCancel c,
                        started = False,
                        goroutines = []\<rparr>
           | Blocks \<Rightarrow> Blocks
           | Panics m \<Rightarrow> Panics m)
      | Blocks \<Rightarrow> Blocks
      | Panics m \<Rightarrow> Panics m)"

text \<open>The loop of \<^verbatim>\<open>Start\<close>: \<^verbatim>\<open>wp.wg.Add(1); go wp.worker(i)\<close> for each \<open>i\<close> below \<open>workers\<close>.\<close>

function spawn :: "'d WorkerPool \<Rightarrow> int \<Rightarrow> 'd WorkerPool" where
  "spawn wp i =
     (if i < workers wp
      then spawn (wp\<lparr>wg := wg wp + 1, goroutines := goroutines wp @ [AtSelect]\<rparr>) (i + 1)
      else wp)"
  by pat_completeness auto
termination
  by (relation "measure (\<lambda>(wp, i). nat (workers wp - i))") auto

declare spawn.simps [simp del]

definition Start :: "'d WorkerPool \<Rightarrow> 'd WorkerPool" where
  "Start wp = (if started wp then wp else (spawn wp 0)\<lparr>started := True\<rparr>)"

text \<open>
  \<^verbatim>\<open>executeJob\<close>: the job's context is the pool's, with the job's timeout when that is
  positive; the call of the unit of work is an ordinary call, so \<^verbatim>\<open>executeJob\<close> returns
  when the unit of work does (\<open>None\<close>: it does not return).
\<close>

definition executeJob :: "'d WorkerPool \<Rightarrow> 'd Job \<Rightarrow> 'd Result option" where
  "executeJob wp job =
     (let jobCtx = (if 0 <s Timeout job then WithTimeout (ctx wp) (Timeout job) else ctx wp)
      in case TaskFunc job jobCtx of
           NeverReturns \<Rightarrow> None
         | Return data err duration \<Rightarrow>
             Some \<lparr>JobID = ID job, Data = data, Error_of = err, Duration_of = duration\<rparr>)"

text \<open>\<^verbatim>\<open>Submit\<close>: the cases of its \<^verbatim>\<open>select\<close>, in the order of the source.\<close>

datatype submit_case = SendJob | SubmitCtxDone

definition Submit :: "'d WorkerPool \<Rightarrow> 'd Job \<Rightarrow> nat \<Rightarrow> (error option \<times> 'd WorkerPool) outcome" where
  "Submit wp job choice =
     (if \<not> started wp then Returns (Some (Errorf ''worker pool not started''), wp)
      else case select_case ((if can_send (jobQueue wp) then [SendJob] else []) @
                             (if Done (ctx wp) then [SubmitCtxDone] else [])) choice of
             Some SendJob \<Rightarrow>
               if chanClosed (jobQueue wp) then Panics ''send on closed channel''
               else Returns (None,
                      wp\<lparr>jobQueue := (jobQueue wp)\<lparr>chanBuf := chanBuf (jobQueue wp) @ [job]\<rparr>\<rparr>)
           | Some SubmitCtxDone \<Rightarrow> Returns (ctxErr (ctx wp), wp)
           | None \<Rightarrow> Returns (Some (Errorf ''job queue full''), wp))"

text \<open>
  \<^verbatim>\<open>worker\<close>, one step of the goroutine \<open>g\<close>. The deferred \<^verbatim>\<open>wp.wg.Done()\<close> runs when
  the goroutine returns. A goroutine that can take no step (no case of its \<^verbatim>\<open>select\<close> can
  proceed, or its unit of work has not returned) \<open>Blocks\<close>.
\<close>

datatype worker_case = RecvJob | WorkerCtxDone

datatype deliver_case = SendResult | DeliverCtxDone

definition worker_return :: "'d WorkerPool \<Rightarrow> nat \<Rightarrow> 'd WorkerPool outcome" where
  "worker_return wp g =
     (if wg wp - 1 < 0 then Panics ''sync: negative WaitGroup counter''
      else Returns (wp\<lparr>wg := wg wp - 1, goroutines := (goroutines wp)[g := Exited]\<rparr>))"

definition worker :: "'d WorkerPool \<Rightarrow> nat \<Rightarrow> nat \<Rightarrow> 'd WorkerPool outcome" where
  "worker wp g choice =
     (if length (goroutines wp) \<le> g then Blocks
      else case goroutines wp ! g of
        AtSelect \<Rightarrow>
          (case select_case ((if can_recv (jobQueue wp) then [RecvJob] else []) @
                             (if Done (ctx wp) then [WorkerCtxDone] else [])) choice of
             Some RecvJob \<Rightarrow>
               (case chanBuf (jobQueue wp) of
                  [] \<Rightarrow> worker_return wp g
                | job # rest \<Rightarrow>
                    Returns (wp\<lparr>jobQueue := (jobQueue wp)\<lparr>chanBuf := rest\<rparr>,
                                goroutines := (goroutines wp)[g := InExecuteJob job]\<rparr>))
           | Some WorkerCtxDone \<Rightarrow> worker_return wp g
           | None \<Rightarrow> Blocks)
      | InExecuteJob job \<Rightarrow>
          (case executeJob wp job of
             None \<Rightarrow> Blocks
           | Some result \<Rightarrow> Returns (wp\<lparr>goroutines := (goroutines wp)[g := AtDeliver result]\<rparr>))
      | AtDeliver result \<Rightarrow>
          (case select_case ((if can_send (results wp) then [SendResult] else []) @
                             (if Done (ctx wp) then [DeliverCtxDone] else [])) choice of
             Some SendResult \<Rightarrow>
               if chanClosed (results wp) then Panics ''send on closed channel''
               else Returns (wp\<lparr>results := (results wp)\<lparr>chanBuf := chanBuf (results wp) @ [result]\<rparr>,
                                goroutines := (goroutines wp)[g := AtSelect]\<rparr>)
           | Some DeliverCtxDone \<Rightarrow> worker_return wp g
           | None \<Rightarrow> Blocks)
      | Exited \<Rightarrow> Blocks)"

text \<open>
  What other goroutines do while a call waits: the worker \<open>g\<close> takes a step, or some
  goroutine receives one Result from the results channel.
\<close>

datatype event = Work nat nat | Take

definition env_step :: "'d WorkerPool \<Rightarrow> event \<Rightarrow> 'd WorkerPool outcome" where
  "env_step wp ev =
     (case ev of
        Work g choice \<Rightarrow> worker wp g choice
      | Take \<Rightarrow>
          (case chanBuf (results wp) of
             [] \<Rightarrow> if chanClosed (results wp) then Returns wp else Blocks
           | r # rs \<Rightarrow> Returns (wp\<lparr>results := (results wp)\<lparr>chanBuf := rs\<rparr>\<rparr>)))"

text \<open>\<^verbatim>\<open>wp.wg.Wait()\<close>: returns once the counter is zero; until then the others run.\<close>

fun wg_Wait :: "'d WorkerPool \<Rightarrow> event list \<Rightarrow> 'd WorkerPool outcome" where
  "wg_Wait wp [] = (if wg wp = 0 then Returns wp else Blocks)"
| "wg_Wait wp (ev # evs) =
     (if wg wp = 0 then Returns wp
      else case env_step wp ev of
             Returns wp' \<Rightarrow> wg_Wait wp' evs
           | Blocks \<Rightarrow> wg_Wait wp evs
           | Panics m \<Rightarrow> Panics m)"


text \<open>\<^verbatim>\<open>close(ch)\<close> panics on a closed channel (\<open>None\<close>).\<close>

definition close_chan :: "'a chan \<Rightarrow> 'a chan option" where
  "close_chan c = (if chanClosed c then None else Some (c\<lparr>chanClosed := True\<rparr>))"

text \<open>
  \<^verbatim>\<open>Stop\<close>. \<open>Stop_signal\<close> is \<^verbatim>\<open>wp.cancel(); close(wp.jobQueue)\<close>, the two statements
  before the wait.
\<close>

definition Stop_signal :: "'d WorkerPool \<Rightarrow> 'd WorkerPool outcome" where
  "Stop_signal wp =
     (case close_chan (jobQueue wp) of
        None \<Rightarrow> Panics ''close of closed channel''
      | Some q \<Rightarrow> Returns (wp\<lparr>ctx := cancel (ctx wp), jobQueue := q\<rparr>))"

definition Stop :: "'d WorkerPool \<Rightarrow> event list \<Rightarrow> 'd WorkerPool outcome" where
  "Stop wp evs =
     (if \<not> started wp then Returns wp
      else case Stop_signal wp of
        Returns wp1 \<Rightarrow>
          (case wg_Wait wp1 evs of
             Returns wp2 \<Rightarrow>
               (case close_chan (results wp2) of
                  None \<Rightarrow> Panics ''close of closed channel''
                | Some r \<Rightarrow> Returns (wp2\<lparr>results := r, started := False\<rparr>))
           | Blocks \<Rightarrow> Blocks
           | Panics m \<Rightarrow> Panics m)
      | Blocks \<Rightarrow> Blocks
      | Panics m \<Rightarrow> Panics m)"

text \<open>
  \<^verbatim>\<open>GetResults\<close>. \<^verbatim>\<open>make([]Result, 0, count)\<close> panics when \<open>count\<close> is negative or the
  slice too large. While the call is in its loop the other goroutines run, the timer of
  its timeout may fire, the pool's context may be cancelled (by \<^verbatim>\<open>Stop\<close> in another
  goroutine, or through the parent context), and its own \<^verbatim>\<open>select\<close> is tried
  (\<open>Select choice\<close>): with no case that can proceed it goes on waiting.
\<close>

datatype collect_event = Env event | TimerFires | Cancelled | Select nat

datatype collect_case = RecvResult | TimeoutDone

fun GetResults_loop ::
  "'d WorkerPool \<Rightarrow> Context \<Rightarrow> int \<Rightarrow> int \<Rightarrow> 'd Result list \<Rightarrow> collect_event list
     \<Rightarrow> ('d Result list \<times> error option \<times> 'd WorkerPool) outcome" where
  "GetResults_loop wp timeoutCtx count i rs [] =
     (if i < count then Blocks else Returns (rs, None, wp))"
| "GetResults_loop wp timeoutCtx count i rs (ev # evs) =
     (if \<not> i < count then Returns (rs, None, wp)
      else case ev of
        Env e \<Rightarrow>
          (case env_step wp e of
             Returns wp' \<Rightarrow> GetResults_loop wp' timeoutCtx count i rs evs
           | Blocks \<Rightarrow> GetResults_loop wp timeoutCtx count i rs evs
           | Panics m \<Rightarrow> Panics m)
      | TimerFires \<Rightarrow> GetResults_loop wp (expire timeoutCtx) count i rs evs
      | Cancelled \<Rightarrow>
          GetResults_loop (wp\<lparr>ctx := cancel (ctx wp)\<rparr>) (cancel timeoutCtx) count i rs evs
      | Select choice \<Rightarrow>
          (case select_case ((if can_recv (results wp) then [RecvResult] else []) @
                             (if Done timeoutCtx then [TimeoutDone] else [])) choice of
             Some RecvResult \<Rightarrow>
               (case chanBuf (results wp) of
                  [] \<Rightarrow> GetResults_loop wp timeoutCtx count (i + 1) (rs @ [zero_Result]) evs
                | r # rest \<Rightarrow>
                    GetResults_loop (wp\<lparr>results := (results wp)\<lparr>chanBuf := rest\<rparr>\<rparr>)
                      timeoutCtx count (i + 1) (rs @ [r]) evs)
           | Some TimeoutDone \<Rightarrow>
               Returns (rs,
                 Some (Errorf (''timeout waiting for results, got '' @ itoa (int (length rs)) @
                               ''/'' @ itoa count)),
                 wp)
           | None \<Rightarrow> GetResults_loop wp timeoutCtx count i rs evs))"

definition GetResults ::
  "'d WorkerPool \<Rightarrow> int \<Rightarrow> Duration \<Rightarrow> collect_event list
     \<Rightarrow> ('d Result list \<times> error option \<times> 'd WorkerPool) outcome" where
  "GetResults wp count timeout evs =
     (if count < 0 \<or> maxAlloc < sizeof_Result * count then Panics ''makeslice: cap out of range''
      else GetResults_loop wp (WithTimeout (ctx wp) timeout) count 0 [] evs)"


subsection \<open>DatabaseBenchmarkPool\<close>

record 'd DatabaseBenchmarkPool =
  pool :: "'d WorkerPool"
  operations :: "string \<rightharpoonup> 64 word"
  durations :: "string \<rightharpoonup> Duration list"

definition NewDatabaseBenchmarkPool ::
  "int \<Rightarrow> Context \<Rightarrow> int \<Rightarrow> 'd DatabaseBenchmarkPool outcome" where
  "NewDatabaseBenchmarkPool numCPU c n =
     (case NewWorkerPool numCPU c n of
        Returns wp \<Rightarrow> Returns \<lparr>pool = wp, operations = Map.empty, durations = Map.empty\<rparr>
      | Blocks \<Rightarrow> Blocks
      | Panics m \<Rightarrow> Panics m)"

text \<open>Reading a map at a missing key gives the zero value: 0, or the nil slice.\<close>

definition RecordOperation ::
  "'d DatabaseBenchmarkPool \<Rightarrow> string \<Rightarrow> Duration \<Rightarrow> 'd DatabaseBenchmarkPool" where
  "RecordOperation dbp operation duration =
     dbp\<lparr>operations := (operations dbp)
            (operation \<mapsto> (case operations dbp operation of None \<Rightarrow> 0 | Some n \<Rightarrow> n) + 1),
         durations := (durations dbp)
            (operation \<mapsto> (case durations dbp operation of None \<Rightarrow> [] | Some ds \<Rightarrow> ds) @ [duration])\<rparr>"

text \<open>Go's \<^verbatim>\<open>/\<close> on \<^verbatim>\<open>int64\<close> truncates towards zero.\<close>

definition quo :: "64 word \<Rightarrow> 64 word \<Rightarrow> 64 word" where
  "quo a b = word_of_int (sint a sdiv sint b)"

text \<open>The inner loop of \<^verbatim>\<open>GetBenchmarkStats\<close> over (total, min, max).\<close>

fun scan :: "Duration list \<Rightarrow> Duration \<times> Duration \<times> Duration \<Rightarrow> Duration \<times> Duration \<times> Duration" where
  "scan [] acc = acc"
| "scan (d # ds) (tot, mn, mx) =
     scan ds (tot + d, (if d <s mn then d else mn), (if mx <s d then d else mx))"

record measures =
  m_total :: Duration
  m_min :: Duration
  m_max :: Duration
  m_avg :: Duration

text \<open>The body of the outer loop for one operation with a non-empty slice of durations.\<close>

definition measure_durations :: "Duration list \<Rightarrow> measures" where
  "measure_durations ds =
     (case scan ds (0, ds ! 0, ds ! 0) of
        (tot, mn, mx) \<Rightarrow>
          \<lparr>m_total = tot, m_min = mn, m_max = mx,
           m_avg = quo tot (word_of_nat (length ds))\<rparr>)"

record stats_entry =
  count :: "64 word"
  avg_duration :: string
  min_duration :: string
  max_duration :: string
  total_time :: string

text \<open>
  \<^verbatim>\<open>GetBenchmarkStats\<close>; \<open>String\<close> is the method \<^verbatim>\<open>time.Duration.String\<close>. The result has
  an entry for each key of \<open>operations\<close> whose slice of durations is not empty.
\<close>

definition GetBenchmarkStats ::
  "(Duration \<Rightarrow> string) \<Rightarrow> 'd DatabaseBenchmarkPool \<Rightarrow> (string \<rightharpoonup> stats_entry)" where
  "GetBenchmarkStats String dbp =
     (\<lambda>operation.
        case operations dbp operation of
          None \<Rightarrow> None
        | Some n \<Rightarrow>
            (let ds = (case durations dbp operation of None \<Rightarrow> [] | Some ds \<Rightarrow> ds) in
             if length ds = 0 then None
             else let m = measure_durations ds in
               Some \<lparr>count = n,
                     avg_duration = String (m_avg m),
                     min_duration = String (m_min m),
                     max_duration = String (m_max m),
                     total_time = String (m_total m)\<rparr>))"

subsection \<open>Callers and well-formed pools\<close>

text \<open>A caller that submits one job after the other, as the loop in pkg/benchmark does.\<close>

fun submit_all ::
  "'d WorkerPool \<Rightarrow> ('d Job \<times> nat) list \<Rightarrow> (error option list \<times> 'd WorkerPool) outcome" where
  "submit_all wp [] = Returns ([], wp)"
| "submit_all wp ((job, choice) # rest) =
     (case Submit wp job choice of
        Returns (err, wp') \<Rightarrow>
          (case submit_all wp' rest of
             Returns (errs, wp'') \<Rightarrow> Returns (err # errs, wp'')
           | Blocks \<Rightarrow> Blocks
           | Panics m \<Rightarrow> Panics m)
      | Blocks \<Rightarrow> Blocks
      | Panics m \<Rightarrow> Panics m)"

text \<open>A caller that records one duration after the other, as cmd/test-crud does.\<close>

fun record_all ::
  "'d DatabaseBenchmarkPool \<Rightarrow> (string \<times> Duration) list \<Rightarrow> 'd DatabaseBenchmarkPool" where
  "record_all dbp [] = dbp"
| "record_all dbp ((operation, duration) # calls) =
     record_all (RecordOperation dbp operation duration) calls"

text \<open>The durations recorded under one operation name, in the order of the calls.\<close>

definition recorded :: "string \<Rightarrow> (string \<times> Duration) list \<Rightarrow> Duration list" where
  "recorded operation calls = map snd (filter (\<lambda>c. fst c = operation) calls)"

text \<open>A worker goroutine is alive until it has returned.\<close>

definition alive :: "'d goroutine \<Rightarrow> bool" where
  "alive g = (g \<noteq> Exited)"

text \<open>
  The two facts that hold of every pool made by \<^verbatim>\<open>NewWorkerPool\<close> and used through its
  methods: the wait group counts the worker goroutines that are alive, and the job queue
  is closed only after the context was cancelled.
\<close>

definition wg_ok :: "'d WorkerPool \<Rightarrow> bool" where
  "wg_ok wp = (wg wp = int (length (filter alive (goroutines wp))))"

text \<open>A context that reports nothing but the two errors of the package \<^verbatim>\<open>context\<close>.\<close>

definition std_ctx :: "Context \<Rightarrow> bool" where
  "std_ctx c = (ctxErr c \<in> {None, Some Canceled, Some DeadlineExceeded})"

definition pool_inv :: "'d WorkerPool \<Rightarrow> bool" where
  "pool_inv wp = (wg_ok wp \<and> (chanClosed (jobQueue wp) \<longrightarrow> Done (ctx wp)))"

text \<open>The pools that a program can have: made by \<^verbatim>\<open>NewWorkerPool\<close>, used through the methods.\<close>

inductive reachable :: "'d WorkerPool \<Rightarrow> bool" where
  new: "NewWorkerPool numCPU c n = Returns wp \<Longrightarrow> reachable wp"
| start: "reachable wp \<Longrightarrow> reachable (Start wp)"
| submit: "reachable wp \<Longrightarrow> Submit wp job choice = Returns (err, wp') \<Longrightarrow> reachable wp'"
| work: "reachable wp \<Longrightarrow> worker wp g choice = Returns wp' \<Longrightarrow> reachable wp'"
| stop: "reachable wp \<Longrightarrow> Stop wp evs = Returns wp' \<Longrightarrow> reachable wp'"
| collect:
    "reachable wp \<Longrightarrow> GetResults wp cnt timeout evs = Returns (rs, err, wp') \<Longrightarrow> reachable wp'"

subsection \<open>Concrete pools and jobs\<close>

definition background :: Context where
  "background = \<lparr>ctxErr = None, ctxTimeout = None\<rparr>"

text \<open>A job that returns its number after 1000ns.\<close>

definition noop_job :: "nat Job" where
  "noop_job = \<lparr>ID = 7, TaskFunc = (\<lambda>c. Return (Some 7) None 1000), Timeout = 0\<rparr>"


text \<open>A job whose unit of work ignores its context and never returns.\<close>

definition hang_job :: "nat Job" where
  "hang_job = \<lparr>ID = 1, TaskFunc = (\<lambda>c. NeverReturns), Timeout = 1000000\<rparr>"

text \<open>A job whose unit of work waits for its context's deadline and returns its error.\<close>

definition patient_job :: "nat Job" where
  "patient_job =
     \<lparr>ID = 2,
      TaskFunc = (\<lambda>c. case ctxTimeout c of
                         Some t \<Rightarrow> Return None (Some DeadlineExceeded) t
                       | None \<Rightarrow> NeverReturns),
      Timeout = 5000\<rparr>"

definition late_result :: "nat Result" where
  "late_result = \<lparr>JobID = 2, Data = None, Error_of = Some DeadlineExceeded, Duration_of = 5000\<rparr>"

text \<open>A job whose unit of work fails with an error of its own.\<close>

definition failing_job :: "nat Job" where
  "failing_job =
     \<lparr>ID = 3,
      TaskFunc = (\<lambda>c. Return None (Some (customError ''*pq.Error'' ''duplicate key'')) 250),
      Timeout = 0\<rparr>"

definition failed_result :: "nat Result" where
  "failed_result =
     \<lparr>JobID = 3, Data = None, Error_of = Some (customError ''*pq.Error'' ''duplicate key''),
      Duration_of = 250\<rparr>"

text \<open>What \<^verbatim>\<open>NewWorkerPool(context.Background(), 1)\<close> and \<^verbatim>\<open>NewWorkerPool(.., 3)\<close> return.\<close>

definition new1 :: "nat WorkerPool" where
  "new1 =
     \<lparr>workers = 1,
      jobQueue = \<lparr>chanBuf = [], chanCap = 10, chanClosed = False\<rparr>,
      results = \<lparr>chanBuf = [], chanCap = 2, chanClosed = False\<rparr>,
      wg = 0,
      ctx = background,
      started = False,
      goroutines = []\<rparr>"

definition new3 :: "nat WorkerPool" where
  "new3 =
     \<lparr>workers = 3,
      jobQueue = \<lparr>chanBuf = [], chanCap = 30, chanClosed = False\<rparr>,
      results = \<lparr>chanBuf = [], chanCap = 6, chanClosed = False\<rparr>,
      wg = 0,
      ctx = background,
      started = False,
      goroutines = []\<rparr>"

text \<open>A pool of one worker, started.\<close>

definition fresh1 :: "nat WorkerPool" where
  "fresh1 = Start new1"

text \<open>The same pool after \<^verbatim>\<open>Stop\<close>, during which its worker saw the closed queue.\<close>

definition stopped1 :: "nat WorkerPool" where
  "stopped1 =
     \<lparr>workers = 1,
      jobQueue = \<lparr>chanBuf = [], chanCap = 10, chanClosed = True\<rparr>,
      results = \<lparr>chanBuf = [], chanCap = 2, chanClosed = True\<rparr>,
      wg = 0,
      ctx = \<lparr>ctxErr = Some Canceled, ctxTimeout = None\<rparr>,
      started = False,
      goroutines = [Exited]\<rparr>"







text \<open>The pool with its worker inside \<open>hang_job\<close>, and inside \<open>patient_job\<close>.\<close>

definition hung1 :: "nat WorkerPool" where
  "hung1 = fresh1\<lparr>goroutines := [InExecuteJob hang_job]\<rparr>"

definition waiting1 :: "nat WorkerPool" where
  "waiting1 = fresh1\<lparr>goroutines := [InExecuteJob patient_job]\<rparr>"

text \<open>The pool with a full job queue; with the Result of \<open>failing_job\<close> delivered.\<close>

definition full1 :: "nat WorkerPool" where
  "full1 = fresh1\<lparr>jobQueue := (jobQueue fresh1)\<lparr>chanBuf := replicate 10 noop_job\<rparr>\<rparr>"

definition failed1 :: "nat WorkerPool" where
  "failed1 = fresh1\<lparr>results := (results fresh1)\<lparr>chanBuf := [failed_result]\<rparr>\<rparr>"

text \<open>A pool made from a parent context that is cancelled already, started.\<close>

definition cancelled1 :: "nat WorkerPool" where
  "cancelled1 = Start (new1\<lparr>ctx := \<lparr>ctxErr = Some Canceled, ctxTimeout = None\<rparr>\<rparr>)"

text \<open>A pool made from a parent context whose deadline has passed, started.\<close>

definition expired1 :: "nat WorkerPool" where
  "expired1 = Start (new1\<lparr>ctx := WithTimeout background (- 1)\<rparr>)"

text \<open>The benchmark pool that \<^verbatim>\<open>NewDatabaseBenchmarkPool(context.Background(), 1)\<close> returns.\<close>

definition bench1 :: "nat DatabaseBenchmarkPool" where
  "bench1 = \<lparr>pool = new1, operations = Map.empty, durations = Map.empty\<rparr>"

text \<open>
  A rendering of durations that prints the count of nanoseconds
  (\<^verbatim>\<open>time.Duration.String\<close> prints the same count in larger units).
\<close>

definition nanos :: "Duration \<Rightarrow> string" where
  "nanos d = itoa (sint d) @ ''ns''"

definition sample_calls :: "(string \<times> Duration) list" where
  "sample_calls = [(''select'', 100), (''insert'', 7), (''select'', 301)]"

text \<open>Two durations of \<open>2 ^ 62\<close> nanoseconds each.\<close>

definition huge_calls :: "(string \<times> Duration) list" where
  "huge_calls = [(''select'', 4611686018427387904), (''select'', 4611686018427387904)]"

section \<open>Properties\<close>

subsection \<open>Contexts and the rendering of numbers\<close>

lemma Done_cancel: "Done (cancel c)"
  by (simp add: cancel_def Done_def)




lemma itoa_0: "itoa 0 = ''0''" and itoa_1: "itoa 1 = ''1''"
  by (simp_all add: itoa_def decimal.simps digit_def)

lemmas pool_defs = Submit_def worker_def env_step_def worker_return_def select_case_def
  can_send_def can_recv_def Done_def executeJob_def Stop_def Stop_signal_def close_chan_def
  cancel_def Errorf_def

subsection \<open>Start\<close>

lemma spawn_goroutines:
  "goroutines (spawn wp i) = goroutines wp @ replicate (nat (workers wp - i)) AtSelect"
proof (induction wp i rule: spawn.induct)
  case (1 wp i)
  show ?case
  proof (cases "i < workers wp")
    case True
    then have "nat (workers wp - i) = Suc (nat (workers wp - (i + 1)))" by simp
    with 1 True show ?thesis
      by (simp add: replicate_append_same spawn.simps[of wp i])
  next
    case False
    then show ?thesis by (simp add: spawn.simps[of wp i])
  qed
qed

lemma spawn_wg: "wg (spawn wp i) = wg wp + int (nat (workers wp - i))"
proof (induction wp i rule: spawn.induct)
  case (1 wp i)
  show ?case
  proof (cases "i < workers wp")
    case True
    with 1 show ?thesis by (simp add: spawn.simps[of wp i])
  next
    case False
    then show ?thesis by (simp add: spawn.simps[of wp i])
  qed
qed

lemma spawn_fields:
  "workers (spawn wp i) = workers wp \<and> jobQueue (spawn wp i) = jobQueue wp \<and>
   results (spawn wp i) = results wp \<and> ctx (spawn wp i) = ctx wp \<and>
   started (spawn wp i) = started wp"
proof (induction wp i rule: spawn.induct)
  case (1 wp i)
  show ?case
  proof (cases "i < workers wp")
    case True
    with 1 show ?thesis by (simp add: spawn.simps[of wp i])
  next
    case False
    then show ?thesis by (simp add: spawn.simps[of wp i])
  qed
qed

lemma Start_Start: "Start (Start wp) = Start wp"
  by (simp add: Start_def)

lemma Start_funpow: "(Start ^^ Suc n) wp = Start wp"
  by (induction n) (simp_all add: Start_Start)

subsection \<open>What the steps of the workers leave unchanged\<close>

lemma worker_return_fields:
  "worker_return wp g = Returns wp' \<Longrightarrow>
   ctx wp' = ctx wp \<and> jobQueue wp' = jobQueue wp \<and> results wp' = results wp \<and>
   workers wp' = workers wp \<and> started wp' = started wp"
  by (auto simp: worker_return_def split: if_splits)

lemma worker_fields:
  "worker wp g choice = Returns wp' \<Longrightarrow>
   ctx wp' = ctx wp \<and> workers wp' = workers wp \<and> started wp' = started wp \<and>
   chanClosed (jobQueue wp') = chanClosed (jobQueue wp) \<and>
   chanCap (jobQueue wp') = chanCap (jobQueue wp) \<and>
   chanClosed (results wp') = chanClosed (results wp) \<and>
   chanCap (results wp') = chanCap (results wp)"
  by (auto simp: worker_def split: if_splits goroutine.splits option.splits
      worker_case.splits deliver_case.splits list.splits dest!: worker_return_fields)

lemma env_step_fields:
  "env_step wp ev = Returns wp' \<Longrightarrow>
   ctx wp' = ctx wp \<and> workers wp' = workers wp \<and> started wp' = started wp \<and>
   chanClosed (jobQueue wp') = chanClosed (jobQueue wp) \<and>
   chanCap (jobQueue wp') = chanCap (jobQueue wp) \<and>
   chanClosed (results wp') = chanClosed (results wp) \<and>
   chanCap (results wp') = chanCap (results wp)"
  by (cases ev) (auto simp: env_step_def split: list.splits if_splits dest!: worker_fields)

lemma wg_Wait_fields:
  "wg_Wait wp evs = Returns wp' \<Longrightarrow>
   wg wp' = 0 \<and>
   ctx wp' = ctx wp \<and> workers wp' = workers wp \<and> started wp' = started wp \<and>
   chanClosed (jobQueue wp') = chanClosed (jobQueue wp) \<and>
   chanCap (jobQueue wp') = chanCap (jobQueue wp) \<and>
   chanClosed (results wp') = chanClosed (results wp) \<and>
   chanCap (results wp') = chanCap (results wp)"
proof (induction evs arbitrary: wp)
  case Nil
  then show ?case by (simp split: if_splits)
next
  case (Cons ev evs)
  show ?case
  proof (cases "wg wp = 0")
    case True
    with Cons.prems show ?thesis by simp
  next
    case False
    show ?thesis
    proof (cases "env_step wp ev")
      case (Returns wp1)
      with False Cons.prems have "wg_Wait wp1 evs = Returns wp'" by simp
      from Cons.IH [OF this] env_step_fields [OF Returns] show ?thesis by simp
    next
      case Blocks
      with False Cons.prems have "wg_Wait wp evs = Returns wp'" by simp
      from Cons.IH [OF this] show ?thesis .
    next
      case (Panics m)
      with False Cons.prems show ?thesis by simp
    qed
  qed
qed

lemma Stop_fields:
  assumes "started wp" and "Stop wp evs = Returns wp'"
  shows "\<not> started wp' \<and> workers wp' = workers wp \<and> wg wp' = 0 \<and>
         ctx wp' = cancel (ctx wp) \<and> Done (ctx wp') \<and>
         chanClosed (jobQueue wp') \<and> chanClosed (results wp') \<and>
         \<not> chanClosed (jobQueue wp) \<and> \<not> chanClosed (results wp)"
proof -
  from assms obtain wp1 wp2 r where
    s: "Stop_signal wp = Returns wp1" and w: "wg_Wait wp1 evs = Returns wp2" and
    c: "close_chan (results wp2) = Some r" and e: "wp' = wp2\<lparr>results := r, started := False\<rparr>"
    by (auto simp: Stop_def split: outcome.splits option.splits)
  from s have s': "\<not> chanClosed (jobQueue wp)" "ctx wp1 = cancel (ctx wp)"
    "chanClosed (jobQueue wp1)" "workers wp1 = workers wp" "results wp1 = results wp"
    by (auto simp: Stop_signal_def close_chan_def split: option.splits if_splits)
  from c have c': "\<not> chanClosed (results wp2)" "chanClosed r"
    by (auto simp: close_chan_def split: if_splits)
  from wg_Wait_fields [OF w] s' c' e show ?thesis by (simp add: Done_cancel)
qed

subsection \<open>The wait group counts the workers that are alive\<close>

lemma filter_update_same:
  "P x = P (xs ! g) \<Longrightarrow> g < length xs \<Longrightarrow> length (filter P (xs[g := x])) = length (filter P xs)"
proof (induction xs arbitrary: g)
  case Nil
  then show ?case by simp
next
  case (Cons y ys)
  then show ?case by (cases g) auto
qed

lemma filter_update_drop:
  "P (xs ! g) \<Longrightarrow> \<not> P x \<Longrightarrow> g < length xs \<Longrightarrow>
   Suc (length (filter P (xs[g := x]))) = length (filter P xs)"
proof (induction xs arbitrary: g)
  case Nil
  then show ?case by simp
next
  case (Cons y ys)
  then show ?case by (cases g) auto
qed

lemma worker_return_wg_ok:
  assumes "wg_ok wp" "g < length (goroutines wp)" "alive (goroutines wp ! g)"
    "worker_return wp g = Returns wp'"
  shows "wg_ok wp'"
proof -
  from assms(4) have e: "wp' = wp\<lparr>wg := wg wp - 1, goroutines := (goroutines wp)[g := Exited]\<rparr>"
    by (auto simp: worker_return_def split: if_splits)
  have "Suc (length (filter alive ((goroutines wp)[g := Exited]))) = length (filter alive (goroutines wp))"
    using assms(2,3) by (intro filter_update_drop) (simp_all add: alive_def)
  with assms(1) show ?thesis unfolding e wg_ok_def by simp
qed

lemma worker_wg_ok:
  assumes "wg_ok wp" "worker wp g choice = Returns wp'"
  shows "wg_ok wp'"
proof (cases "g < length (goroutines wp)")
  case False
  with assms(2) show ?thesis by (simp add: worker_def)
next
  case lt: True
  show ?thesis
  proof (cases "goroutines wp ! g")
    case AtSelect
    then have al: "alive (goroutines wp ! g)" by (simp add: alive_def)
    have same: "\<And>job. length (filter alive ((goroutines wp)[g := InExecuteJob job])) =
                  length (filter alive (goroutines wp))"
      using lt al by (intro filter_update_same) (simp_all add: alive_def)
    from assms lt AtSelect show ?thesis
      by (auto simp: worker_def wg_ok_def same split: option.splits worker_case.splits list.splits
          intro: worker_return_wg_ok [OF assms(1) lt al, unfolded wg_ok_def])
  next
    case (InExecuteJob job)
    then have al: "alive (goroutines wp ! g)" by (simp add: alive_def)
    have same: "\<And>r. length (filter alive ((goroutines wp)[g := AtDeliver r])) =
                  length (filter alive (goroutines wp))"
      using lt al by (intro filter_update_same) (simp_all add: alive_def)
    from assms lt InExecuteJob show ?thesis
      by (auto simp: worker_def wg_ok_def same split: option.splits)
  next
    case (AtDeliver r)
    then have al: "alive (goroutines wp ! g)" by (simp add: alive_def)
    have same: "length (filter alive ((goroutines wp)[g := AtSelect])) =
                  length (filter alive (goroutines wp))"
      using lt al by (intro filter_update_same) (simp_all add: alive_def)
    from assms lt AtDeliver show ?thesis
      by (auto simp: worker_def wg_ok_def same split: option.splits deliver_case.splits if_splits
          intro: worker_return_wg_ok [OF assms(1) lt al, unfolded wg_ok_def])
  next
    case Exited
    with assms lt show ?thesis by (simp add: worker_def)
  qed
qed

lemma env_step_wg_ok:
  "wg_ok wp \<Longrightarrow> env_step wp ev = Returns wp' \<Longrightarrow> wg_ok wp'"
  by (cases ev) (auto simp: env_step_def wg_ok_def split: list.splits if_splits
      dest: worker_wg_ok [unfolded wg_ok_def])

lemma wg_Wait_wg_ok:
  "wg_ok wp \<Longrightarrow> wg_Wait wp evs = Returns wp' \<Longrightarrow> wg_ok wp'"
proof (induction evs arbitrary: wp)
  case Nil
  then show ?case by (simp split: if_splits)
next
  case (Cons ev evs)
  show ?case
  proof (cases "wg wp = 0")
    case True
    with Cons.prems show ?thesis by simp
  next
    case False
    show ?thesis
    proof (cases "env_step wp ev")
      case (Returns wp1)
      with False Cons.prems have w: "wg_Wait wp1 evs = Returns wp'" by simp
      from env_step_wg_ok [OF Cons.prems(1) Returns] have "wg_ok wp1" .
      from Cons.IH [OF this w] show ?thesis .
    next
      case Blocks
      with False Cons.prems have "wg_Wait wp evs = Returns wp'" by simp
      from Cons.IH [OF Cons.prems(1) this] show ?thesis .
    next
      case (Panics m)
      with False Cons.prems show ?thesis by simp
    qed
  qed
qed


text \<open>The methods of the pool keep \<open>pool_inv\<close>.\<close>

lemma NewWorkerPool_Returns:
  assumes "NewWorkerPool numCPU c n = Returns wp"
  shows "\<exists>k. k = (if n \<le> 0 then numCPU else n) \<and>
           wp = \<lparr>workers = k,
                  jobQueue = make_chan (nat (int64 (k * 10))),
                  results = make_chan (nat (int64 (k * 2))),
                  wg = 0, ctx = WithCancel c, started = False, goroutines = []\<rparr>"
  using assms
  by (auto simp: NewWorkerPool_def makechan_def Let_def split: if_splits outcome.splits)

lemma pool_inv_New: "NewWorkerPool numCPU c n = Returns wp \<Longrightarrow> pool_inv wp"
  by (auto dest!: NewWorkerPool_Returns simp: pool_inv_def wg_ok_def make_chan_def)

lemma pool_inv_Start: "pool_inv wp \<Longrightarrow> pool_inv (Start wp)"
  by (simp add: pool_inv_def wg_ok_def Start_def spawn_fields spawn_goroutines spawn_wg alive_def)

lemma pool_inv_Submit:
  "pool_inv wp \<Longrightarrow> Submit wp job choice = Returns (err, wp') \<Longrightarrow> pool_inv wp'"
  by (auto simp: pool_inv_def wg_ok_def Submit_def split: if_splits option.splits submit_case.splits)

lemma pool_inv_env_step: "pool_inv wp \<Longrightarrow> env_step wp ev = Returns wp' \<Longrightarrow> pool_inv wp'"
  using env_step_wg_ok [of wp ev wp'] env_step_fields [of wp ev wp']
  by (simp add: pool_inv_def)

lemma pool_inv_worker: "pool_inv wp \<Longrightarrow> worker wp g choice = Returns wp' \<Longrightarrow> pool_inv wp'"
  using pool_inv_env_step [of wp "Work g choice" wp'] by (simp add: env_step_def)

lemma pool_inv_Stop:
  assumes "pool_inv wp" and "Stop wp evs = Returns wp'"
  shows "pool_inv wp'"
proof (cases "started wp")
  case False
  with assms show ?thesis by (simp add: Stop_def)
next
  case True
  from True assms(2) obtain wp1 wp2 r where
    s: "Stop_signal wp = Returns wp1" and w: "wg_Wait wp1 evs = Returns wp2" and
    c: "close_chan (results wp2) = Some r" and e: "wp' = wp2\<lparr>results := r, started := False\<rparr>"
    by (auto simp: Stop_def split: outcome.splits option.splits)
  from s assms(1) have ok1: "wg_ok wp1"
    by (auto simp: Stop_signal_def wg_ok_def pool_inv_def split: option.splits)
  from wg_Wait_wg_ok [OF ok1 w] e have "wg_ok wp'" by (simp add: wg_ok_def)
  with Stop_fields [OF True assms(2)] show ?thesis by (simp add: pool_inv_def Done_cancel)
qed

subsection \<open>Runs of the concrete pools\<close>

lemma fresh1_eq:
  "fresh1 =
     \<lparr>workers = 1,
      jobQueue = \<lparr>chanBuf = [], chanCap = 10, chanClosed = False\<rparr>,
      results = \<lparr>chanBuf = [], chanCap = 2, chanClosed = False\<rparr>,
      wg = 1,
      ctx = \<lparr>ctxErr = None, ctxTimeout = None\<rparr>,
      started = True,
      goroutines = [AtSelect]\<rparr>"
  by (simp add: fresh1_def new1_def Start_def background_def spawn.simps)

lemma cancelled1_eq:
  "cancelled1 = fresh1\<lparr>ctx := \<lparr>ctxErr = Some Canceled, ctxTimeout = None\<rparr>\<rparr>"
  by (simp add: cancelled1_def new1_def fresh1_eq Start_def spawn.simps)

lemma NewWorkerPool_new1: "NewWorkerPool numCPU background 1 = Returns new1"
  by (simp add: NewWorkerPool_def makechan_def make_chan_def int64_def maxAlloc_def hchanSize_def
      sizeof_Job_def sizeof_Result_def WithCancel_def new1_def)

lemma NewWorkerPool_new3: "NewWorkerPool 8 background 3 = Returns new3"
  by (simp add: NewWorkerPool_def makechan_def make_chan_def int64_def maxAlloc_def hchanSize_def
      sizeof_Job_def sizeof_Result_def WithCancel_def new3_def)

lemma NewDatabaseBenchmarkPool_bench1: "NewDatabaseBenchmarkPool 4 background 1 = Returns bench1"
  by (simp add: NewDatabaseBenchmarkPool_def NewWorkerPool_new1 bench1_def)

lemma expired1_eq:
  "expired1 = fresh1\<lparr>ctx := \<lparr>ctxErr = Some DeadlineExceeded, ctxTimeout = Some (- 1)\<rparr>\<rparr>"
  by (simp add: expired1_def new1_def fresh1_eq Start_def spawn.simps WithTimeout_def
      background_def word_sle_eq)

lemma pool_inv_fresh1: "pool_inv fresh1"
  unfolding fresh1_def by (intro pool_inv_Start pool_inv_New [OF NewWorkerPool_new1])

lemma Stop_fresh1: "Stop fresh1 [Work 0 0] = Returns stopped1"
  by (simp add: fresh1_eq stopped1_def pool_defs)



subsection \<open>Start is idempotent\<close>

text \<open>
  C7. \<^verbatim>\<open>Start\<close> is idempotent: on a started pool it changes nothing, so any number
  of calls in a row is one call; on a pool that was not started they spawn exactly
  \<open>workers\<close> worker goroutines in total (each counted by the wait group) and leave the
  pool started.
\<close>

theorem Start_idempotent:
  "(started wp \<longrightarrow> Start wp = wp) \<and>
   (Start ^^ Suc n) wp = Start wp \<and>
   (\<not> started wp \<longrightarrow>
      goroutines ((Start ^^ Suc n) wp) = goroutines wp @ replicate (nat (workers wp)) AtSelect \<and>
      wg ((Start ^^ Suc n) wp) = wg wp + int (nat (workers wp)) \<and>
      started ((Start ^^ Suc n) wp))"
  unfolding Start_funpow by (simp add: Start_def spawn_goroutines spawn_wg)

text \<open>
  C7 at a new pool of three workers, started three times, and at the started pool of one
  worker.
\<close>

theorem Start_idempotent_witness:
  "NewWorkerPool 8 background 3 = Returns new3 \<and>
   \<not> started new3 \<and>
   (Start ^^ Suc 2) new3 = Start new3 \<and>
   goroutines ((Start ^^ Suc 2) new3) = [AtSelect, AtSelect, AtSelect] \<and>
   wg ((Start ^^ Suc 2) new3) = 3 \<and>
   started fresh1 \<and> Start fresh1 = fresh1"
proof -
  have ns: "\<not> started new3" by (simp add: new3_def)
  have w: "workers new3 = 3" "goroutines new3 = []" "wg new3 = 0"
    by (simp_all add: new3_def)
  have r: "replicate (nat 3) (AtSelect :: nat goroutine) = [AtSelect, AtSelect, AtSelect]"
    by (simp add: numeral_3_eq_3)
  note inst = Start_idempotent [of new3 2]
  from inst have a: "(Start ^^ Suc 2) new3 = Start new3" by blast
  from inst ns
  have b: "goroutines ((Start ^^ Suc 2) new3) = goroutines new3 @ replicate (nat (workers new3)) AtSelect"
    by blast
  from inst ns have c: "wg ((Start ^^ Suc 2) new3) = wg new3 + int (nat (workers new3))"
    by blast
  have b': "goroutines ((Start ^^ Suc 2) new3) = [AtSelect, AtSelect, AtSelect]"
    unfolding b w r by simp
  have c': "wg ((Start ^^ Suc 2) new3) = 3"
    unfolding c w by simp
  have s: "started fresh1" by (simp add: fresh1_eq)
  from Start_idempotent [of fresh1 0] s have d: "Start fresh1 = fresh1" by blast
  from NewWorkerPool_new3 ns a b' c' s d show ?thesis by blast
qed

subsection \<open>Submit\<close>

lemma Submit_errors:
  "Submit wp job choice = Returns (Some e, wp') \<Longrightarrow>
   e = Errorf ''worker pool not started'' \<or> e = Errorf ''job queue full'' \<or> ctxErr (ctx wp) = Some e"
  by (auto simp: Submit_def split: if_splits option.splits submit_case.splits)

lemma Submit_full:
  assumes "started wp" "\<not> Done (ctx wp)" "\<not> chanClosed (jobQueue wp)"
    "chanCap (jobQueue wp) \<le> length (chanBuf (jobQueue wp))"
  shows "Submit wp job choice = Returns (Some (Errorf ''job queue full''), wp)"
  using assms by (simp add: Submit_def can_send_def select_case_def)

lemma Submit_room:
  assumes "started wp" "\<not> Done (ctx wp)" "\<not> chanClosed (jobQueue wp)"
    "length (chanBuf (jobQueue wp)) < chanCap (jobQueue wp)"
  shows "Submit wp job choice =
           Returns (None, wp\<lparr>jobQueue := (jobQueue wp)\<lparr>chanBuf := chanBuf (jobQueue wp) @ [job]\<rparr>\<rparr>)"
  using assms by (simp add: Submit_def can_send_def select_case_def)

lemma submit_all_open:
  assumes "started wp" "\<not> Done (ctx wp)" "\<not> chanClosed (jobQueue wp)"
  shows "submit_all wp jobs =
     Returns (replicate (min (length jobs) (chanCap (jobQueue wp) - length (chanBuf (jobQueue wp)))) None @
              replicate (length jobs - (chanCap (jobQueue wp) - length (chanBuf (jobQueue wp))))
                (Some (Errorf ''job queue full'')),
              wp\<lparr>jobQueue := (jobQueue wp)\<lparr>chanBuf := chanBuf (jobQueue wp) @
                 map fst (take (chanCap (jobQueue wp) - length (chanBuf (jobQueue wp))) jobs)\<rparr>\<rparr>)"
  using assms
proof (induction jobs arbitrary: wp)
  case Nil
  then show ?case by simp
next
  case (Cons jc jobs)
  obtain job choice where jc: "jc = (job, choice)" by (cases jc)
  show ?case
  proof (cases "length (chanBuf (jobQueue wp)) < chanCap (jobQueue wp)")
    case True
    let ?wp' = "wp\<lparr>jobQueue := (jobQueue wp)\<lparr>chanBuf := chanBuf (jobQueue wp) @ [job]\<rparr>\<rparr>"
    have s: "Submit wp job choice = Returns (None, ?wp')"
      using Cons.prems True by (rule Submit_room)
    have p: "started ?wp'" "\<not> Done (ctx ?wp')" "\<not> chanClosed (jobQueue ?wp')"
      using Cons.prems by simp_all
    from True obtain k where k: "chanCap (jobQueue wp) - length (chanBuf (jobQueue wp)) = Suc k"
      by (metis Suc_diff_Suc)
    then have k': "chanCap (jobQueue wp) - Suc (length (chanBuf (jobQueue wp))) = k" by simp
    show ?thesis
      using Cons.IH [OF p] s k k' by (simp add: jc)
  next
    case False
    then have full: "chanCap (jobQueue wp) \<le> length (chanBuf (jobQueue wp))" by simp
    have s: "Submit wp job choice = Returns (Some (Errorf ''job queue full''), wp)"
      using Cons.prems full by (rule Submit_full)
    show ?thesis
      using Cons.IH [OF Cons.prems] s full by (simp add: jc)
  qed
qed

text \<open>
  C6. On a started pool whose context is not cancelled, \<^verbatim>\<open>Submit\<close> on a job queue at
  capacity returns the error "job queue full" and leaves the pool as it is, whatever its
  \<^verbatim>\<open>select\<close> would choose; and of a list of jobs submitted one after the other with
  nothing dequeued, as many as there is room for are accepted and every one beyond fails
  with "job queue full". No submission waits or panics.
\<close>

theorem Submit_QueueFull:
  assumes "pool_inv wp" and "started wp" and "\<not> Done (ctx wp)"
  shows "(chanCap (jobQueue wp) \<le> length (chanBuf (jobQueue wp)) \<longrightarrow>
            Submit wp job choice = Returns (Some (Errorf ''job queue full''), wp)) \<and>
         submit_all wp jobs =
           Returns (replicate (min (length jobs) (chanCap (jobQueue wp) - length (chanBuf (jobQueue wp)))) None @
              replicate (length jobs - (chanCap (jobQueue wp) - length (chanBuf (jobQueue wp))))
                (Some (Errorf ''job queue full'')),
              wp\<lparr>jobQueue := (jobQueue wp)\<lparr>chanBuf := chanBuf (jobQueue wp) @
                 map fst (take (chanCap (jobQueue wp) - length (chanBuf (jobQueue wp))) jobs)\<rparr>\<rparr>)"
proof -
  from assms(1,3) have op: "\<not> chanClosed (jobQueue wp)" by (auto simp: pool_inv_def)
  from Submit_full [OF assms(2,3) op] submit_all_open [OF assms(2,3) op] show ?thesis by blast
qed

text \<open>
  C6 at the pool of one worker (queue capacity 10): full, a submission fails; empty, of
  twelve submissions the last two fail.
\<close>

theorem Submit_QueueFull_witness:
  "wg_ok full1 \<and> \<not> chanClosed (jobQueue full1) \<and> started full1 \<and> \<not> Done (ctx full1) \<and>
   chanCap (jobQueue full1) \<le> length (chanBuf (jobQueue full1)) \<and>
   Submit full1 noop_job 0 = Returns (Some (Errorf ''job queue full''), full1) \<and>
   wg_ok fresh1 \<and> \<not> chanClosed (jobQueue fresh1) \<and> started fresh1 \<and> \<not> Done (ctx fresh1) \<and>
   submit_all fresh1 (replicate 12 (noop_job, 0)) =
     Returns (replicate 10 None @ replicate 2 (Some (Errorf ''job queue full'')), full1)"
proof -
  have p: "pool_inv fresh1" "started fresh1" "\<not> Done (ctx fresh1)"
    by (simp_all add: pool_inv_fresh1) (simp_all add: fresh1_eq Done_def)
  have f: "pool_inv full1" "started full1" "\<not> Done (ctx full1)"
    using p(1) by (simp_all add: full1_def pool_inv_def wg_ok_def fresh1_eq Done_def)
  have f4: "chanCap (jobQueue full1) \<le> length (chanBuf (jobQueue full1))"
    by (simp add: full1_def fresh1_eq)
  from Submit_QueueFull [OF f, of noop_job 0 "[]"] f4
  have a: "Submit full1 noop_job 0 = Returns (Some (Errorf ''job queue full''), full1)"
    by blast
  have k: "chanCap (jobQueue fresh1) - length (chanBuf (jobQueue fresh1)) = 10"
    by (simp add: fresh1_eq)
  from Submit_QueueFull [OF p, of noop_job 0 "replicate 12 (noop_job, 0)"]
  have "submit_all fresh1 (replicate 12 (noop_job, 0)) =
     Returns (replicate (min (length (replicate 12 (noop_job, 0 :: nat))) 10) None @
              replicate (length (replicate 12 (noop_job, 0 :: nat)) - 10)
                (Some (Errorf ''job queue full'')),
              fresh1\<lparr>jobQueue := (jobQueue fresh1)\<lparr>chanBuf := chanBuf (jobQueue fresh1) @
                 map fst (take 10 (replicate 12 (noop_job, 0 :: nat)))\<rparr>\<rparr>)"
    unfolding k by blast
  then have b: "submit_all fresh1 (replicate 12 (noop_job, 0)) =
     Returns (replicate 10 None @ replicate 2 (Some (Errorf ''job queue full'')), full1)"
    by (simp add: full1_def fresh1_eq)
  have i: "wg_ok full1" "\<not> chanClosed (jobQueue full1)"
    "wg_ok fresh1" "\<not> chanClosed (jobQueue fresh1)"
    using f(1) p(1) by (simp_all add: pool_inv_def full1_def fresh1_eq)
  from f(2,3) f4 p(2,3) a b i show ?thesis by blast
qed

subsection \<open>Stop\<close>

















text \<open>
  C2, as amended. Once \<^verbatim>\<open>Stop\<close> has returned, \<^verbatim>\<open>Submit\<close> fails with the error
  "worker pool not started" and leaves the pool as it is (so every further \<^verbatim>\<open>Submit\<close>
  fails the same way, until the pool is started again): \<^verbatim>\<open>Stop\<close> resets \<open>started\<close>, and
  \<^verbatim>\<open>Submit\<close> tests \<open>started\<close> before it looks at the context.
\<close>

theorem Submit_after_Stop:
  "Stop wp evs = Returns wp' \<Longrightarrow>
   Submit wp' job choice = Returns (Some (Errorf ''worker pool not started''), wp')"
  by (auto simp: Stop_def Submit_def split: if_splits outcome.splits option.splits)

text \<open>C2, as amended, at the pool of one worker.\<close>

theorem Submit_after_Stop_witness:
  "Stop fresh1 [Work 0 0] = Returns stopped1 \<and>
   Submit stopped1 noop_job 0 = Returns (Some (Errorf ''worker pool not started''), stopped1)"
  using Submit_after_Stop [of fresh1 "[Work 0 0]" stopped1 noop_job 0] Stop_fresh1 by simp

text \<open>
  C2 as stated fails: after \<^verbatim>\<open>Start\<close> and \<^verbatim>\<open>Stop\<close> on a pool of one worker, \<^verbatim>\<open>Submit\<close>
  returns "worker pool not started", which is not the context's error
  \<^verbatim>\<open>context.Canceled\<close>.
\<close>

theorem Submit_after_Stop_counterexample:
  "Stop fresh1 [Work 0 0] = Returns stopped1 \<and>
   Submit stopped1 noop_job 0 =
     Returns (Some (errorString ''worker pool not started''), stopped1) \<and>
   errorString ''worker pool not started'' \<noteq> Canceled"
  by (simp add: Stop_fresh1 Submit_def stopped1_def Errorf_def Canceled_def)

text \<open>
  C9. \<^verbatim>\<open>Stop\<close> is not final. It leaves \<open>started\<close> false, so the next \<^verbatim>\<open>Start\<close> spawns
  \<open>workers\<close> new goroutines and sets \<open>started\<close>, with the job queue closed and the context
  done. In \<^verbatim>\<open>Submit\<close> both the send and the receive from \<^verbatim>\<open>ctx.Done()\<close> can then proceed:
  when the \<^verbatim>\<open>select\<close> takes the send (here: an even choice) \<^verbatim>\<open>Submit\<close> panics with "send on
  closed channel", when it takes the other case \<^verbatim>\<open>Submit\<close> returns the context's error.
\<close>

theorem Submit_after_restart:
  assumes "started wp" and "Stop wp evs = Returns wp1"
  shows "\<not> started wp1 \<and> started (Start wp1) \<and> chanClosed (jobQueue (Start wp1)) \<and>
         goroutines (Start wp1) = goroutines wp1 @ replicate (nat (workers wp)) AtSelect \<and>
         Done (ctx (Start wp1)) \<and>
         Submit (Start wp1) job choice =
           (if even choice then Panics ''send on closed channel''
            else Returns (ctxErr (ctx wp1), Start wp1))"
proof -
  note f = Stop_fields [OF assms]
  have s: "jobQueue (Start wp1) = jobQueue wp1" "ctx (Start wp1) = ctx wp1" "started (Start wp1)"
    "goroutines (Start wp1) = goroutines wp1 @ replicate (nat (workers wp1)) AtSelect"
    using f by (simp_all add: Start_def spawn_fields spawn_goroutines)
  have sel: "select_case [SendJob, SubmitCtxDone] choice =
               Some (if even choice then SendJob else SubmitCtxDone)"
  proof -
    have "select_case [SendJob, SubmitCtxDone] choice =
            Some ([SendJob, SubmitCtxDone] ! (choice mod 2))"
      by (simp add: select_case_def numeral_2_eq_2)
    moreover have "choice mod 2 = (if even choice then 0 else 1)"
      by (simp add: mod_2_eq_odd)
    ultimately show ?thesis by simp
  qed
  show ?thesis using f s sel
    by (simp add: Submit_def can_send_def Done_cancel)
qed

text \<open>C9 at the pool of one worker, stopped and started again.\<close>

theorem Submit_after_restart_witness:
  "started fresh1 \<and> Stop fresh1 [Work 0 0] = Returns stopped1 \<and>
   goroutines (Start stopped1) = [Exited, AtSelect] \<and>
   Submit (Start stopped1) noop_job 0 = Panics ''send on closed channel'' \<and>
   Submit (Start stopped1) noop_job 1 = Returns (Some Canceled, Start stopped1)"
proof -
  have a: "started fresh1" by (simp add: fresh1_eq)
  note b = Stop_fresh1
  from Submit_after_restart [OF a b, of noop_job 0]
  have c: "Submit (Start stopped1) noop_job 0 = Panics ''send on closed channel''" by simp
  from Submit_after_restart [OF a b, of noop_job 1]
  have d: "Submit (Start stopped1) noop_job 1 = Returns (ctxErr (ctx stopped1), Start stopped1)"
    by simp
  from Submit_after_restart [OF a b, of noop_job 0]
  have e: "goroutines (Start stopped1) = goroutines stopped1 @ replicate (nat (workers fresh1)) AtSelect"
    by blast
  have e': "goroutines (Start stopped1) = [Exited, AtSelect]"
    unfolding e by (simp add: stopped1_def fresh1_eq)
  have d': "ctxErr (ctx stopped1) = Some Canceled" by (simp add: stopped1_def)
  from a b c d e' d' show ?thesis by simp
qed

subsection \<open>GetResults\<close>

lemma GetResults_loop_sound:
  "GetResults_loop wp tctx cnt i rs evs = Returns (rs', err, wp') \<Longrightarrow>
   int (length rs) = i \<Longrightarrow> i \<le> cnt \<Longrightarrow>
   (err = None \<longrightarrow> int (length rs') = cnt) \<and>
   (\<forall>e. err = Some e \<longrightarrow>
      int (length rs') < cnt \<and>
      e = Errorf (''timeout waiting for results, got '' @ itoa (int (length rs')) @ ''/'' @ itoa cnt) \<and>
      (Done tctx \<or> TimerFires \<in> set evs \<or> Cancelled \<in> set evs))"
proof (induction evs arbitrary: wp tctx i rs)
  case Nil
  then show ?case by (auto split: if_splits)
next
  case (Cons ev evs)
  show ?case
  proof (cases "i < cnt")
    case False
    with Cons.prems show ?thesis by auto
  next
    case lt: True
    show ?thesis
    proof (cases ev)
      case (Env e)
      show ?thesis
      proof (cases "env_step wp e")
        case (Returns wp1)
        with lt Env Cons.prems have "GetResults_loop wp1 tctx cnt i rs evs = Returns (rs', err, wp')"
          by simp
        from Cons.IH [OF this Cons.prems(2,3)] show ?thesis by auto
      next
        case Blocks
        with lt Env Cons.prems have "GetResults_loop wp tctx cnt i rs evs = Returns (rs', err, wp')"
          by simp
        from Cons.IH [OF this Cons.prems(2,3)] show ?thesis by auto
      next
        case (Panics m)
        with lt Env Cons.prems show ?thesis by simp
      qed
    next
      case TimerFires
      with lt Cons.prems have "GetResults_loop wp (expire tctx) cnt i rs evs = Returns (rs', err, wp')"
        by simp
      from Cons.IH [OF this Cons.prems(2,3)] TimerFires show ?thesis by auto
    next
      case Cancelled
      with lt Cons.prems
      have "GetResults_loop (wp\<lparr>ctx := cancel (ctx wp)\<rparr>) (cancel tctx) cnt i rs evs =
              Returns (rs', err, wp')"
        by simp
      from Cons.IH [OF this Cons.prems(2,3)] Cancelled show ?thesis by auto
    next
      case (Select choice)
      let ?ready = "(if can_recv (results wp) then [RecvResult] else []) @
                    (if Done tctx then [TimeoutDone] else [])"
      show ?thesis
      proof (cases "select_case ?ready choice")
        case None
        with lt Select Cons.prems have "GetResults_loop wp tctx cnt i rs evs = Returns (rs', err, wp')"
          by simp
        from Cons.IH [OF this Cons.prems(2,3)] show ?thesis by auto
      next
        case (Some c)
        show ?thesis
        proof (cases c)
          case RecvResult
          have l: "i + 1 \<le> cnt" using lt by simp
          show ?thesis
          proof (cases "chanBuf (results wp)")
            case Nil
            with lt Select Some RecvResult Cons.prems
            have "GetResults_loop wp tctx cnt (i + 1) (rs @ [zero_Result]) evs = Returns (rs', err, wp')"
              by simp
            from Cons.IH [OF this _ l] Cons.prems(2) show ?thesis by auto
          next
            case buf: (Cons r rest)
            with lt Select Some RecvResult Cons.prems
            have "GetResults_loop (wp\<lparr>results := (results wp)\<lparr>chanBuf := rest\<rparr>\<rparr>) tctx cnt
                    (i + 1) (rs @ [r]) evs = Returns (rs', err, wp')"
              by simp
            from Cons.IH [OF this _ l] Cons.prems(2) show ?thesis by auto
          qed
        next
          case TimeoutDone
          with Some have d: "Done tctx"
            by (auto simp: select_case_def split: if_splits)
          from lt Select Some TimeoutDone Cons.prems d show ?thesis by auto
        qed
      qed
    qed
  qed
qed







lemma executeJob_jobQueue [simp]:
  "executeJob (wp\<lparr>jobQueue := q\<rparr>) = executeJob wp"
  by (rule ext) (simp add: executeJob_def)

lemma executeJob_goroutines [simp]:
  "executeJob (wp\<lparr>goroutines := gs\<rparr>) = executeJob wp"
  by (rule ext) (simp add: executeJob_def)






lemma pool_inv_GetResults_loop:
  "pool_inv wp \<Longrightarrow> GetResults_loop wp tctx cnt i rs evs = Returns (rs', err, wp') \<Longrightarrow>
   pool_inv wp'"
proof (induction evs arbitrary: wp tctx i rs)
  case Nil
  then show ?case by (auto split: if_splits)
next
  case (Cons ev evs)
  show ?case
  proof (cases "i < cnt")
    case False
    with Cons.prems show ?thesis by auto
  next
    case lt: True
    show ?thesis
    proof (cases ev)
      case (Env e)
      show ?thesis
      proof (cases "env_step wp e")
        case (Returns wp1)
        with lt Env Cons.prems have l: "GetResults_loop wp1 tctx cnt i rs evs = Returns (rs', err, wp')"
          by simp
        from pool_inv_env_step [OF Cons.prems(1) Returns] have "pool_inv wp1" .
        from Cons.IH [OF this l] show ?thesis .
      next
        case Blocks
        with lt Env Cons.prems have "GetResults_loop wp tctx cnt i rs evs = Returns (rs', err, wp')"
          by simp
        from Cons.IH [OF Cons.prems(1) this] show ?thesis .
      next
        case (Panics m)
        with lt Env Cons.prems show ?thesis by simp
      qed
    next
      case TimerFires
      with lt Cons.prems have "GetResults_loop wp (expire tctx) cnt i rs evs = Returns (rs', err, wp')"
        by simp
      from Cons.IH [OF Cons.prems(1) this] show ?thesis .
    next
      case Cancelled
      with lt Cons.prems
      have l: "GetResults_loop (wp\<lparr>ctx := cancel (ctx wp)\<rparr>) (cancel tctx) cnt i rs evs =
              Returns (rs', err, wp')"
        by simp
      from Cons.prems(1) have "pool_inv (wp\<lparr>ctx := cancel (ctx wp)\<rparr>)"
        by (simp add: pool_inv_def wg_ok_def Done_cancel)
      from Cons.IH [OF this l] show ?thesis .
    next
      case (Select choice)
      let ?ready = "(if can_recv (results wp) then [RecvResult] else []) @
                    (if Done tctx then [TimeoutDone] else [])"
      show ?thesis
      proof (cases "select_case ?ready choice")
        case None
        with lt Select Cons.prems have "GetResults_loop wp tctx cnt i rs evs = Returns (rs', err, wp')"
          by simp
        from Cons.IH [OF Cons.prems(1) this] show ?thesis .
      next
        case (Some c)
        show ?thesis
        proof (cases c)
          case RecvResult
          show ?thesis
          proof (cases "chanBuf (results wp)")
            case Nil
            with lt Select Some RecvResult Cons.prems
            have "GetResults_loop wp tctx cnt (i + 1) (rs @ [zero_Result]) evs = Returns (rs', err, wp')"
              by simp
            from Cons.IH [OF Cons.prems(1) this] show ?thesis .
          next
            case buf: (Cons r rest)
            with lt Select Some RecvResult Cons.prems
            have l: "GetResults_loop (wp\<lparr>results := (results wp)\<lparr>chanBuf := rest\<rparr>\<rparr>) tctx cnt
                    (i + 1) (rs @ [r]) evs = Returns (rs', err, wp')"
              by simp
            from Cons.prems(1) have "pool_inv (wp\<lparr>results := (results wp)\<lparr>chanBuf := rest\<rparr>\<rparr>)"
              by (simp add: pool_inv_def wg_ok_def)
            from Cons.IH [OF this l] show ?thesis .
          qed
        next
          case TimeoutDone
          with lt Select Some Cons.prems show ?thesis by auto
        qed
      qed
    qed
  qed
qed

lemma pool_inv_GetResults:
  "pool_inv wp \<Longrightarrow> GetResults wp cnt timeout evs = Returns (rs, err, wp') \<Longrightarrow> pool_inv wp'"
  by (auto simp: GetResults_def split: if_splits dest: pool_inv_GetResults_loop)

text \<open>Every pool that is made by \<^verbatim>\<open>NewWorkerPool\<close> and used through its methods is well-formed.\<close>

lemma reachable_pool_inv: "reachable wp \<Longrightarrow> pool_inv wp"
proof (induction rule: reachable.induct)
  case (new numCPU c n wp)
  then show ?case by (rule pool_inv_New)
next
  case (start wp)
  then show ?case by (simp add: pool_inv_Start)
next
  case (submit wp job choice err wp')
  then show ?case by (blast intro: pool_inv_Submit)
next
  case (work wp g choice wp')
  then show ?case by (blast intro: pool_inv_worker)
next
  case (stop wp evs wp')
  then show ?case by (blast intro: pool_inv_Stop)
next
  case (collect wp cnt timeout evs rs err wp')
  then show ?case by (blast intro: pool_inv_GetResults)
qed

lemma GetResults_error:
  "GetResults wp cnt timeout evs = Returns (rs, Some e, wp') \<Longrightarrow>
   e = Errorf (''timeout waiting for results, got '' @ itoa (int (length rs)) @ ''/'' @ itoa cnt)"
  using GetResults_loop_sound [of wp "WithTimeout (ctx wp) timeout" cnt 0 "[]" evs rs "Some e" wp']
  by (auto simp: GetResults_def split: if_splits)













subsection \<open>executeJob\<close>

text \<open>
  C1, as amended. For a job with a positive timeout, \<^verbatim>\<open>executeJob\<close> calls the unit of
  work with a context that carries a deadline and returns when that call returns: the
  Result then has the job's ID and exactly the data, error and duration of the call (so
  the error is \<^verbatim>\<open>context.DeadlineExceeded\<close> when the unit of work returns that). While
  the call has not returned there is no Result, and the worker goroutine takes no step.
\<close>

theorem executeJob_waits_for_task:
  assumes "0 <s Timeout job"
  shows "((executeJob wp job = None) =
            (TaskFunc job (WithTimeout (ctx wp) (Timeout job)) = NeverReturns)) \<and>
         ctxTimeout (WithTimeout (ctx wp) (Timeout job)) \<noteq> None \<and>
         (\<forall>data err d. TaskFunc job (WithTimeout (ctx wp) (Timeout job)) = Return data err d \<longrightarrow>
            executeJob wp job = Some \<lparr>JobID = ID job, Data = data, Error_of = err, Duration_of = d\<rparr>) \<and>
         (g < length (goroutines wp) \<and> goroutines wp ! g = InExecuteJob job \<longrightarrow>
            worker wp g choice =
              (case executeJob wp job of
                 None \<Rightarrow> Blocks
               | Some r \<Rightarrow> Returns (wp\<lparr>goroutines := (goroutines wp)[g := AtDeliver r]\<rparr>)))"
  using assms
  by (auto simp: executeJob_def worker_def WithTimeout_def split: taskrun.splits option.splits)

text \<open>
  C1, as amended, at a job whose unit of work returns the error of its context at the
  deadline: the worker gets a Result with \<^verbatim>\<open>context.DeadlineExceeded\<close>.
\<close>

theorem executeJob_waits_for_task_witness:
  "0 <s Timeout patient_job \<and>
   TaskFunc patient_job (WithTimeout (ctx waiting1) (Timeout patient_job)) =
     Return None (Some DeadlineExceeded) 5000 \<and>
   (0::nat) < length (goroutines waiting1) \<and> goroutines waiting1 ! 0 = InExecuteJob patient_job \<and>
   executeJob waiting1 patient_job = Some late_result \<and>
   worker waiting1 0 0 = Returns (waiting1\<lparr>goroutines := [AtDeliver late_result]\<rparr>)"
proof -
  have t: "0 <s Timeout patient_job" by (simp add: patient_job_def word_sless_alt)
  have r: "TaskFunc patient_job (WithTimeout (ctx waiting1) (Timeout patient_job)) =
             Return None (Some DeadlineExceeded) 5000"
    by (simp add: patient_job_def waiting1_def fresh1_eq WithTimeout_def)
  have g: "(0::nat) < length (goroutines waiting1)" "goroutines waiting1 ! 0 = InExecuteJob patient_job"
    by (simp_all add: waiting1_def)
  have i: "ID patient_job = 2" by (simp add: patient_job_def)
  note inst = executeJob_waits_for_task [OF t, of waiting1 0 0]
  from inst r have e: "executeJob waiting1 patient_job = Some late_result"
    unfolding late_result_def i [symmetric] by blast
  from inst g have w0: "worker waiting1 0 0 =
      (case executeJob waiting1 patient_job of
         None \<Rightarrow> Blocks
       | Some r \<Rightarrow> Returns (waiting1\<lparr>goroutines := (goroutines waiting1)[0 := AtDeliver r]\<rparr>))"
    by blast
  have w: "worker waiting1 0 0 = Returns (waiting1\<lparr>goroutines := [AtDeliver late_result]\<rparr>)"
    unfolding w0 e by (simp add: waiting1_def)
  from t r g e w show ?thesis by blast
qed

text \<open>
  C1 as stated fails. A job with a timeout of 1ms whose unit of work never returns is
  submitted and taken by the worker: \<^verbatim>\<open>executeJob\<close> does not return, the worker takes no
  further step, the results channel stays empty, and a \<^verbatim>\<open>GetResults(1, 2ms)\<close> whose
  timer fires returns no Result for the job, only its own timeout error.
\<close>

theorem executeJob_timeout_counterexample:
  "0 <s Timeout hang_job \<and>
   TaskFunc hang_job (WithTimeout (ctx hung1) (Timeout hang_job)) = NeverReturns \<and>
   Submit fresh1 hang_job 0 =
     Returns (None, fresh1\<lparr>jobQueue := (jobQueue fresh1)\<lparr>chanBuf := [hang_job]\<rparr>\<rparr>) \<and>
   worker (fresh1\<lparr>jobQueue := (jobQueue fresh1)\<lparr>chanBuf := [hang_job]\<rparr>\<rparr>) 0 0 = Returns hung1 \<and>
   executeJob hung1 hang_job = None \<and>
   worker hung1 0 0 = Blocks \<and>
   chanBuf (results hung1) = [] \<and>
   GetResults hung1 1 2000000 [Env (Work 0 0), TimerFires, Env (Work 0 0), Select 0] =
     Returns ([], Some (errorString ''timeout waiting for results, got 0/1''), hung1)"
  by (simp add: pool_defs fresh1_eq hung1_def hang_job_def GetResults_def maxAlloc_def sizeof_Result_def WithTimeout_def
      expire_def itoa_0 itoa_1 word_sless_alt)

text \<open>
  C8. The Result that \<^verbatim>\<open>executeJob\<close> builds has the job's ID and the error of the unit of
  work as it is. What \<^verbatim>\<open>Submit\<close> returns is nil, one of its own two errors or the error
  of the pool's context, and is the same whatever the unit of work of the job is; what
  \<^verbatim>\<open>GetResults\<close> returns beside the Results is nil or its own timeout error, whatever
  errors the Results carry.
\<close>

theorem job_failure_stays_in_Result:
  assumes "TaskFunc job (if 0 <s Timeout job then WithTimeout (ctx wp) (Timeout job) else ctx wp) =
             Return data err d"
    and "Submit wp1 job choice = Returns (serr, wp1')"
    and "GetResults wp2 cnt timeout evs = Returns (rs, gerr, wp2')"
  shows "executeJob wp job = Some \<lparr>JobID = ID job, Data = data, Error_of = err, Duration_of = d\<rparr> \<and>
         serr \<in> {None, Some (Errorf ''worker pool not started''), Some (Errorf ''job queue full''),
                  ctxErr (ctx wp1)} \<and>
         (\<exists>wp1''. Submit wp1 (job\<lparr>TaskFunc := f\<rparr>) choice = Returns (serr, wp1'')) \<and>
         gerr \<in> {None, Some (Errorf (''timeout waiting for results, got '' @
                                      itoa (int (length rs)) @ ''/'' @ itoa cnt))}"
proof -
  from assms(1) have 1: "executeJob wp job =
      Some \<lparr>JobID = ID job, Data = data, Error_of = err, Duration_of = d\<rparr>"
    by (simp add: executeJob_def)
  from assms(2) have 2: "serr \<in> {None, Some (Errorf ''worker pool not started''),
      Some (Errorf ''job queue full''), ctxErr (ctx wp1)}"
    by (cases serr) (auto dest: Submit_errors)
  from assms(2) have 3: "\<exists>wp1''. Submit wp1 (job\<lparr>TaskFunc := f\<rparr>) choice = Returns (serr, wp1'')"
    by (auto simp: Submit_def split: if_splits option.splits submit_case.splits)
  from assms(3) have 4: "gerr \<in> {None, Some (Errorf (''timeout waiting for results, got '' @
                                      itoa (int (length rs)) @ ''/'' @ itoa cnt))}"
    by (cases gerr) (auto dest: GetResults_error)
  from 1 2 3 4 show ?thesis by blast
qed

text \<open>
  C8 at a job whose unit of work fails with an error of its own: the error is in the
  Result, \<^verbatim>\<open>Submit\<close> and \<^verbatim>\<open>GetResults\<close> return nil.
\<close>

theorem job_failure_stays_in_Result_witness:
  "TaskFunc failing_job (if 0 <s Timeout failing_job
        then WithTimeout (ctx fresh1) (Timeout failing_job) else ctx fresh1) =
     Return None (Some (customError ''*pq.Error'' ''duplicate key'')) 250 \<and>
   Submit fresh1 failing_job 0 =
     Returns (None, fresh1\<lparr>jobQueue := (jobQueue fresh1)\<lparr>chanBuf := [failing_job]\<rparr>\<rparr>) \<and>
   GetResults failed1 1 1000000000 [Select 0] = Returns ([failed_result], None, fresh1) \<and>
   executeJob fresh1 failing_job = Some failed_result"
proof -
  have a: "TaskFunc failing_job (if 0 <s Timeout failing_job
        then WithTimeout (ctx fresh1) (Timeout failing_job) else ctx fresh1) =
     Return None (Some (customError ''*pq.Error'' ''duplicate key'')) 250"
    by (simp add: failing_job_def)
  have b: "Submit fresh1 failing_job 0 =
     Returns (None, fresh1\<lparr>jobQueue := (jobQueue fresh1)\<lparr>chanBuf := [failing_job]\<rparr>\<rparr>)"
    by (simp add: fresh1_eq pool_defs)
  have c: "GetResults failed1 1 1000000000 [Select 0] = Returns ([failed_result], None, fresh1)"
    by (simp add: GetResults_def maxAlloc_def sizeof_Result_def WithTimeout_def failed1_def fresh1_eq pool_defs word_sle_eq)
  have i: "ID failing_job = 3" by (simp add: failing_job_def)
  from job_failure_stays_in_Result [OF a b c]
  have "executeJob fresh1 failing_job = Some failed_result"
    unfolding failed_result_def i by blast
  with a b c show ?thesis by blast
qed

subsection \<open>The errors of Submit and GetResults\<close>

text \<open>
  The contexts of the standard library report \<^verbatim>\<open>context.Canceled\<close> or
  \<^verbatim>\<open>context.DeadlineExceeded\<close>, and a pool made from one keeps such a context.
\<close>

lemma std_ctx_cancel: "std_ctx c \<Longrightarrow> std_ctx (cancel c)"
  by (auto simp: std_ctx_def cancel_def)

lemma std_ctx_WithTimeout: "std_ctx c \<Longrightarrow> std_ctx (WithTimeout c d)"
  by (auto simp: std_ctx_def WithTimeout_def split: option.splits)

lemma std_ctx_background: "std_ctx background"
  by (simp add: std_ctx_def background_def)

lemma std_ctx_New: "std_ctx c \<Longrightarrow> NewWorkerPool numCPU c n = Returns wp \<Longrightarrow> std_ctx (ctx wp)"
  by (auto dest!: NewWorkerPool_Returns simp: WithCancel_def)

lemma std_ctx_Start: "std_ctx (ctx wp) \<Longrightarrow> std_ctx (ctx (Start wp))"
  by (simp add: Start_def spawn_fields)

lemma std_ctx_Submit:
  "std_ctx (ctx wp) \<Longrightarrow> Submit wp job choice = Returns (err, wp') \<Longrightarrow> std_ctx (ctx wp')"
  by (auto simp: Submit_def split: if_splits option.splits submit_case.splits)

lemma std_ctx_worker:
  "std_ctx (ctx wp) \<Longrightarrow> worker wp g choice = Returns wp' \<Longrightarrow> std_ctx (ctx wp')"
  by (auto dest: worker_fields)

lemma std_ctx_Stop:
  assumes "std_ctx (ctx wp)" and "Stop wp evs = Returns wp'"
  shows "std_ctx (ctx wp')"
proof (cases "started wp")
  case True
  from Stop_fields [OF True assms(2)] have "ctx wp' = cancel (ctx wp)" by simp
  with assms(1) show ?thesis by (simp add: std_ctx_cancel)
next
  case False
  with assms show ?thesis by (simp add: Stop_def)
qed

text \<open>
  C3, as amended. An error returned by \<^verbatim>\<open>Submit\<close> is "worker pool not started", "job
  queue full" or the error of the pool's context as it is; for a pool with a context of
  the standard library that is \<^verbatim>\<open>context.Canceled\<close> or \<^verbatim>\<open>context.DeadlineExceeded\<close>. An
  error returned by \<^verbatim>\<open>GetResults\<close> is "timeout waiting for results, got n/cnt". The two
  errors of \<^verbatim>\<open>Submit\<close>'s own, the timeout error and \<^verbatim>\<open>context.Canceled\<close> are values of the
  one type \<^verbatim>\<open>*errors.errorString\<close>; only \<^verbatim>\<open>context.DeadlineExceeded\<close> has a type of its
  own. The messages of all five are pairwise different, so the failures can be told apart
  by their text.
\<close>

theorem pool_failures_differ_by_message:
  assumes "std_ctx (ctx wp)"
  shows
  "(Submit wp job choice = Returns (Some e, wp') \<longrightarrow>
      e = Errorf ''worker pool not started'' \<or> e = Errorf ''job queue full'' \<or>
      ctxErr (ctx wp) = Some e \<and> (e = Canceled \<or> e = DeadlineExceeded)) \<and>
   (GetResults wp2 cnt timeout evs = Returns (rs, Some e2, wp2') \<longrightarrow>
      e2 = Errorf (''timeout waiting for results, got '' @ itoa (int (length rs)) @ ''/'' @ itoa cnt)) \<and>
   dynamicType (Errorf ''worker pool not started'') = ''*errors.errorString'' \<and>
   dynamicType (Errorf ''job queue full'') = ''*errors.errorString'' \<and>
   dynamicType Canceled = ''*errors.errorString'' \<and>
   dynamicType (Errorf (''timeout waiting for results, got '' @ itoa k @ ''/'' @ itoa m)) =
     ''*errors.errorString'' \<and>
   dynamicType DeadlineExceeded = ''context.deadlineExceededError'' \<and>
   distinct (map Error
     [Errorf ''worker pool not started'', Errorf ''job queue full'', Canceled, DeadlineExceeded,
      Errorf (''timeout waiting for results, got '' @ itoa k @ ''/'' @ itoa m)])"
proof -
  have 1: "Submit wp job choice = Returns (Some e, wp') \<longrightarrow>
      e = Errorf ''worker pool not started'' \<or> e = Errorf ''job queue full'' \<or>
      ctxErr (ctx wp) = Some e \<and> (e = Canceled \<or> e = DeadlineExceeded)"
    using Submit_errors [of wp job choice e wp'] assms by (auto simp: std_ctx_def)
  have 2: "GetResults wp2 cnt timeout evs = Returns (rs, Some e2, wp2') \<longrightarrow>
      e2 = Errorf (''timeout waiting for results, got '' @ itoa (int (length rs)) @ ''/'' @ itoa cnt)"
    using GetResults_error [of wp2 cnt timeout evs rs e2 wp2'] by blast
  have 3: "dynamicType (Errorf ''worker pool not started'') = ''*errors.errorString'' \<and>
   dynamicType (Errorf ''job queue full'') = ''*errors.errorString'' \<and>
   dynamicType Canceled = ''*errors.errorString'' \<and>
   dynamicType (Errorf (''timeout waiting for results, got '' @ itoa k @ ''/'' @ itoa m)) =
     ''*errors.errorString'' \<and>
   dynamicType DeadlineExceeded = ''context.deadlineExceededError'' \<and>
   distinct (map Error
     [Errorf ''worker pool not started'', Errorf ''job queue full'', Canceled, DeadlineExceeded,
      Errorf (''timeout waiting for results, got '' @ itoa k @ ''/'' @ itoa m)])"
    by (simp add: Errorf_def Canceled_def DeadlineExceeded_def)
  from 1 2 3 show ?thesis by blast
qed

text \<open>
  C3, as amended, at a cancelled pool, at a pool whose parent's deadline has passed and at
  a collection that times out.
\<close>

theorem pool_failures_differ_by_message_witness:
  "ctxErr (ctx cancelled1) = Some Canceled \<and>
   Submit cancelled1 noop_job 1 = Returns (Some Canceled, cancelled1) \<and>
   NewWorkerPool 1 (WithTimeout background (- 1)) 1 =
     Returns (new1\<lparr>ctx := WithTimeout background (- 1)\<rparr>) \<and>
   ctxErr (ctx expired1) = Some DeadlineExceeded \<and>
   Submit expired1 noop_job 1 = Returns (Some DeadlineExceeded, expired1) \<and>
   dynamicType DeadlineExceeded = ''context.deadlineExceededError'' \<and>
   GetResults fresh1 1 5 [TimerFires, Select 0] =
     Returns ([],
       Some (Errorf (''timeout waiting for results, got '' @
                     itoa (int (length ([] :: nat Result list))) @ ''/'' @ itoa 1)),
       fresh1) \<and>
   distinct (map Error
     [Errorf ''worker pool not started'', Errorf ''job queue full'', Canceled, DeadlineExceeded,
      Errorf (''timeout waiting for results, got '' @ itoa 0 @ ''/'' @ itoa 1)])"
proof -
  have c: "std_ctx (ctx cancelled1)" "ctxErr (ctx cancelled1) = Some Canceled"
    by (simp_all add: cancelled1_eq std_ctx_def)
  have a: "Submit cancelled1 noop_job 1 = Returns (Some Canceled, cancelled1)"
    by (simp add: cancelled1_eq fresh1_eq pool_defs)
  have n: "NewWorkerPool 1 (WithTimeout background (- 1)) 1 =
     Returns (new1\<lparr>ctx := WithTimeout background (- 1)\<rparr>)"
    by (simp add: NewWorkerPool_def makechan_def make_chan_def int64_def maxAlloc_def
        hchanSize_def sizeof_Job_def sizeof_Result_def WithCancel_def new1_def)
  have x: "std_ctx (ctx expired1)" "ctxErr (ctx expired1) = Some DeadlineExceeded"
    by (simp_all add: expired1_eq std_ctx_def)
  have b: "Submit expired1 noop_job 1 = Returns (Some DeadlineExceeded, expired1)"
    by (simp add: expired1_eq fresh1_eq pool_defs)
  have g: "GetResults fresh1 1 5 [TimerFires, Select 0] =
     Returns ([],
       Some (Errorf (''timeout waiting for results, got '' @
                     itoa (int (length ([] :: nat Result list))) @ ''/'' @ itoa 1)),
       fresh1)"
    by (simp add: GetResults_def maxAlloc_def sizeof_Result_def WithTimeout_def fresh1_eq pool_defs
        expire_def word_sle_eq)
  note i1 = pool_failures_differ_by_message [OF c(1), of noop_job 1 Canceled cancelled1
      fresh1 1 5 "[TimerFires, Select 0]" "[]"
      "Errorf (''timeout waiting for results, got '' @
               itoa (int (length ([] :: nat Result list))) @ ''/'' @ itoa 1)"
      fresh1 0 1]
  note i2 = pool_failures_differ_by_message [OF x(1), of noop_job 1 DeadlineExceeded expired1
      fresh1 1 5 "[TimerFires, Select 0]" "[]"
      "Errorf (''timeout waiting for results, got '' @
               itoa (int (length ([] :: nat Result list))) @ ''/'' @ itoa 1)"
      fresh1 0 1]
  from i1 have d: "distinct (map Error
     [Errorf ''worker pool not started'', Errorf ''job queue full'', Canceled, DeadlineExceeded,
      Errorf (''timeout waiting for results, got '' @ itoa 0 @ ''/'' @ itoa 1)])"
    by blast
  from i2 have t: "dynamicType DeadlineExceeded = ''context.deadlineExceededError''"
    by blast
  from c(2) a n x(2) b t g d show ?thesis by blast
qed

text \<open>
  C3 as stated fails: the four failures, each as the code returns it on a pool made from
  \<^verbatim>\<open>context.Background()\<close> or from a cancelled context, are values of one and the same
  dynamic type.
\<close>

theorem pool_failures_one_type_counterexample:
  "NewWorkerPool 1 background 1 = Returns new1 \<and>
   Submit new1 noop_job 0 = Returns (Some (errorString ''worker pool not started''), new1) \<and>
   Submit full1 noop_job 0 = Returns (Some (errorString ''job queue full''), full1) \<and>
   Submit cancelled1 noop_job 1 = Returns (Some (errorString ''context canceled''), cancelled1) \<and>
   GetResults fresh1 1 5 [TimerFires, Select 0] =
     Returns ([], Some (errorString ''timeout waiting for results, got 0/1''), fresh1) \<and>
   dynamicType (errorString ''worker pool not started'') = dynamicType (errorString ''job queue full'') \<and>
   dynamicType (errorString ''job queue full'') = dynamicType (errorString ''context canceled'') \<and>
   dynamicType (errorString ''context canceled'') =
     dynamicType (errorString ''timeout waiting for results, got 0/1'')"
proof -
  have 1: "Submit new1 noop_job 0 = Returns (Some (errorString ''worker pool not started''), new1)"
    by (simp add: Submit_def new1_def Errorf_def)
  have 2: "Submit full1 noop_job 0 = Returns (Some (errorString ''job queue full''), full1)"
    by (simp add: full1_def fresh1_eq pool_defs)
  have 3: "Submit cancelled1 noop_job 1 = Returns (Some (errorString ''context canceled''), cancelled1)"
    by (simp add: cancelled1_eq fresh1_eq pool_defs Canceled_def)
  have 4: "GetResults fresh1 1 5 [TimerFires, Select 0] =
     Returns ([], Some (errorString ''timeout waiting for results, got 0/1''), fresh1)"
    by (simp add: GetResults_def maxAlloc_def sizeof_Result_def WithTimeout_def fresh1_eq pool_defs
        expire_def word_sle_eq itoa_0 itoa_1)
  from NewWorkerPool_new1 1 2 3 4 show ?thesis by simp
qed

subsection \<open>GetBenchmarkStats\<close>

lemma scan_spec:
  "scan ds (t, mn, mx) = (t', mn', mx') \<Longrightarrow>
   t' = t + sum_list ds \<and>
   mn' \<in> insert mn (set ds) \<and> (\<forall>x \<in> insert mn (set ds). sint mn' \<le> sint x) \<and>
   mx' \<in> insert mx (set ds) \<and> (\<forall>x \<in> insert mx (set ds). sint x \<le> sint mx')"
proof (induction ds arbitrary: t mn mx)
  case Nil
  then show ?case by simp
next
  case (Cons d ds)
  let ?mn = "if d <s mn then d else mn"
  let ?mx = "if mx <s d then d else mx"
  from Cons.prems have "scan ds (t + d, ?mn, ?mx) = (t', mn', mx')" by simp
  from Cons.IH [OF this] have
    a: "t' = t + d + sum_list ds" and
    b: "mn' \<in> insert ?mn (set ds)" and c: "\<forall>x \<in> insert ?mn (set ds). sint mn' \<le> sint x" and
    e: "mx' \<in> insert ?mx (set ds)" and f: "\<forall>x \<in> insert ?mx (set ds). sint x \<le> sint mx'"
    by simp_all
  from c have c1: "sint mn' \<le> sint ?mn" by simp
  have c2: "sint ?mn \<le> sint mn" "sint ?mn \<le> sint d" by (simp_all add: word_sless_alt)
  from f have f1: "sint ?mx \<le> sint mx'" by simp
  have f2: "sint mx \<le> sint ?mx" "sint d \<le> sint ?mx" by (simp_all add: word_sless_alt)
  have 1: "t' = t + sum_list (d # ds)" using a by (simp add: add.assoc)
  have 2: "mn' \<in> insert mn (set (d # ds))" using b by (auto split: if_splits)
  have 3: "\<forall>x \<in> insert mn (set (d # ds)). sint mn' \<le> sint x"
    using c c1 c2 by (auto intro: order_trans)
  have 4: "mx' \<in> insert mx (set (d # ds))" using e by (auto split: if_splits)
  have 5: "\<forall>x \<in> insert mx (set (d # ds)). sint x \<le> sint mx'"
    using f f1 f2 by (auto intro: order_trans)
  from 1 2 3 4 5 show ?case by blast
qed

lemma sum_list_word: "(sum_list ds :: Duration) = word_of_int (sum_list (map sint ds))"
  by (induction ds) simp_all

lemma sint_in_range:
  "- (2 ^ 63) \<le> k \<Longrightarrow> k < 2 ^ 63 \<Longrightarrow> sint (word_of_int k :: 64 word) = k"
  by (simp add: sint_sbintrunc' signed_take_bit_int_eq_self)

lemma sint_of_nat_small:
  "n < 2 ^ 63 \<Longrightarrow> sint (word_of_nat n :: 64 word) = int n"
  using sint_in_range [of "int n"] by simp

lemma sum_list_lower:
  "\<forall>x \<in> set xs. lo \<le> (x::int) \<Longrightarrow> int (length xs) * lo \<le> sum_list xs"
  by (induction xs) (auto simp: algebra_simps)

lemma sum_list_upper:
  "\<forall>x \<in> set xs. (x::int) \<le> hi \<Longrightarrow> sum_list xs \<le> int (length xs) * hi"
  by (induction xs) (auto simp: algebra_simps)

lemma sdiv_pos:
  fixes S n :: int
  assumes "0 < n" "0 \<le> S"
  shows "S sdiv n = S div n"
  using assms by (cases "S = 0") (simp_all add: signed_divide_int_def)

lemma sdiv_neg:
  fixes S n :: int
  assumes "0 < n" "S < 0"
  shows "S sdiv n = - ((- S) div n)"
  using assms by (simp add: signed_divide_int_def)

lemma div_between:
  fixes T n lo hi :: int
  assumes n: "0 < n" and lo: "n * lo \<le> T" and hi: "T \<le> n * hi"
  shows "lo \<le> T div n \<and> T div n \<le> hi"
proof -
  have "(n * lo) div n \<le> T div n" using lo n by (rule zdiv_mono1)
  moreover have "(n * lo) div n = lo" using n by simp
  moreover have "T div n \<le> (n * hi) div n" using hi n by (rule zdiv_mono1)
  moreover have "(n * hi) div n = hi" using n by simp
  ultimately show ?thesis by simp
qed

lemma sdiv_between:
  fixes S n lo hi :: int
  assumes n: "0 < n" and lo: "n * lo \<le> S" and hi: "S \<le> n * hi"
  shows "lo \<le> S sdiv n \<and> S sdiv n \<le> hi"
proof (cases "0 \<le> S")
  case True
  with div_between [OF n lo hi] sdiv_pos [OF n True] show ?thesis by simp
next
  case False
  then have neg: "S < 0" by simp
  have a: "n * (- hi) \<le> - S" using hi by simp
  have b: "- S \<le> n * (- lo)" using lo by simp
  from div_between [OF n a b] sdiv_neg [OF n neg] show ?thesis by simp
qed

lemma sdiv_range:
  fixes S n :: int
  assumes n: "0 < n"
  shows "(0 \<le> S \<longrightarrow> 0 \<le> S sdiv n \<and> S sdiv n \<le> S) \<and>
         (S < 0 \<longrightarrow> S \<le> S sdiv n \<and> S sdiv n \<le> 0)"
proof (cases "0 \<le> S")
  case True
  have "0 \<le> S div n" using True n by (simp add: pos_imp_zdiv_nonneg_iff)
  moreover have "S div n \<le> S" using True n
    by (metis div_by_1 int_one_le_iff_zero_less zdiv_mono2 zero_less_one)
  ultimately show ?thesis using True sdiv_pos [OF n True] by simp
next
  case False
  then have neg: "S < 0" by simp
  then have p: "0 \<le> - S" by simp
  have "0 \<le> (- S) div n" using p n by (simp only: pos_imp_zdiv_nonneg_iff)
  moreover have "(- S) div n \<le> - S" using p n
    by (metis div_by_1 int_one_le_iff_zero_less zdiv_mono2 zero_less_one)
  ultimately show ?thesis using neg sdiv_neg [OF n neg] by simp
qed

lemma measure_durations_spec:
  assumes ne: "ds \<noteq> []" and len: "length ds < 2 ^ 63"
    and lo: "- (2 ^ 63) \<le> sum_list (map sint ds)" and hi: "sum_list (map sint ds) < 2 ^ 63"
  shows "sint (m_total (measure_durations ds)) = sum_list (map sint ds) \<and>
         sint (m_min (measure_durations ds)) = Min (sint ` set ds) \<and>
         sint (m_max (measure_durations ds)) = Max (sint ` set ds) \<and>
         sint (m_avg (measure_durations ds)) = sum_list (map sint ds) sdiv int (length ds) \<and>
         sint (m_min (measure_durations ds)) \<le> sint (m_avg (measure_durations ds)) \<and>
         sint (m_avg (measure_durations ds)) \<le> sint (m_max (measure_durations ds))"
proof -
  let ?S = "sum_list (map sint ds)"
  let ?n = "int (length ds)"
  obtain t mn mx where sc: "scan ds (0, ds ! 0, ds ! 0) = (t, mn, mx)"
    by (cases "scan ds (0, ds ! 0, ds ! 0)") auto
  from ne have h: "ds ! 0 \<in> set ds" by (cases ds) auto
  then have ins: "insert (ds ! 0) (set ds) = set ds" by auto
  from scan_spec [OF sc] have
    t: "t = sum_list ds" and
    mn: "mn \<in> set ds" "\<forall>x \<in> set ds. sint mn \<le> sint x" and
    mx: "mx \<in> set ds" "\<forall>x \<in> set ds. sint x \<le> sint mx"
    unfolding ins by simp_all
  have m: "measure_durations ds =
     \<lparr>m_total = t, m_min = mn, m_max = mx, m_avg = quo t (word_of_nat (length ds))\<rparr>"
    by (simp add: measure_durations_def sc)
  have st: "sint t = ?S" unfolding t sum_list_word using lo hi by (rule sint_in_range)
  have smn: "sint mn = Min (sint ` set ds)"
    using mn by (intro Min_eqI [symmetric]) auto
  have smx: "sint mx = Max (sint ` set ds)"
    using mx by (intro Max_eqI [symmetric]) auto
  have npos: "0 < ?n" using ne by simp
  have sn: "sint (word_of_nat (length ds) :: 64 word) = ?n" using len by (rule sint_of_nat_small)
  note ab = sdiv_range [OF npos, of ?S]
  have r1: "- (2 ^ 63) \<le> ?S sdiv ?n" using ab lo hi by (cases "0 \<le> ?S") simp_all
  have r2: "?S sdiv ?n < 2 ^ 63" using ab lo hi by (cases "0 \<le> ?S") simp_all
  have sa: "sint (quo t (word_of_nat (length ds))) = ?S sdiv ?n"
    unfolding quo_def st sn using r1 r2 by (rule sint_in_range)
  have b1: "?n * sint mn \<le> ?S"
    using sum_list_lower [of "map sint ds" "sint mn"] mn(2) by simp
  have b2: "?S \<le> ?n * sint mx"
    using sum_list_upper [of "map sint ds" "sint mx"] mx(2) by simp
  from sdiv_between [OF npos b1 b2] have bt: "sint mn \<le> ?S sdiv ?n" "?S sdiv ?n \<le> sint mx"
    by simp_all
  show ?thesis unfolding m using st smn smx sa bt by simp
qed

lemma record_all_maps:
  "operations (record_all dbp calls) operation =
     (if recorded operation calls = [] then operations dbp operation
      else Some ((case operations dbp operation of None \<Rightarrow> 0 | Some n \<Rightarrow> n) +
                 word_of_nat (length (recorded operation calls)))) \<and>
   durations (record_all dbp calls) operation =
     (if recorded operation calls = [] then durations dbp operation
      else Some ((case durations dbp operation of None \<Rightarrow> [] | Some ds \<Rightarrow> ds) @
                 recorded operation calls))"
proof (induction calls arbitrary: dbp)
  case Nil
  then show ?case by (simp add: recorded_def)
next
  case (Cons c calls)
  obtain op d where c: "c = (op, d)" by (cases c)
  show ?case
    using Cons.IH [of "RecordOperation dbp op d"]
    by (auto simp: c recorded_def RecordOperation_def split: option.splits)
qed

lemma recorded_sample: "recorded ''select'' sample_calls = [100, 301]"
  by (simp add: recorded_def sample_calls_def)

lemma recorded_huge:
  "recorded ''select'' huge_calls = [4611686018427387904, 4611686018427387904]"
  by (simp add: recorded_def huge_calls_def)

lemma measure_sample:
  "measure_durations [100, 301] = \<lparr>m_total = 401, m_min = 100, m_max = 301, m_avg = 200\<rparr>"
  by (simp add: measure_durations_def quo_def signed_divide_int_def word_sless_alt)

lemma measure_huge:
  "measure_durations [4611686018427387904, 4611686018427387904] =
     \<lparr>m_total = 9223372036854775808, m_min = 4611686018427387904, m_max = 4611686018427387904,
      m_avg = 13835058055282163712\<rparr>"
  by (simp add: measure_durations_def quo_def signed_divide_int_def word_sless_alt)

text \<open>
  C10, as amended. On a benchmark pool with nothing recorded yet (as
  \<^verbatim>\<open>NewDatabaseBenchmarkPool\<close> returns it), after any calls of \<^verbatim>\<open>RecordOperation\<close>, for
  an operation name with at least one recorded duration (fewer than \<open>2 ^ 63\<close> of them)
  whose durations add up to a value in the range of \<^verbatim>\<open>int64\<close>, \<^verbatim>\<open>GetBenchmarkStats\<close> has an
  entry for the name: its count is the number of calls for the name, and the durations it
  renders are the sum of the recorded durations, their minimum, their maximum, and the
  sum divided by the count with truncation towards zero; the minimum is at most the average
  and the average at most the maximum.
\<close>

theorem GetBenchmarkStats_measures:
  assumes "recorded operation calls \<noteq> []"
    and "length (recorded operation calls) < 2 ^ 63"
    and "- (2 ^ 63) \<le> sum_list (map sint (recorded operation calls))"
    and "sum_list (map sint (recorded operation calls)) < 2 ^ 63"
  shows "GetBenchmarkStats String
           (record_all \<lparr>pool = wp, operations = Map.empty, durations = Map.empty\<rparr> calls)
           operation =
           Some \<lparr>count = word_of_nat (length (recorded operation calls)),
                 avg_duration = String (m_avg (measure_durations (recorded operation calls))),
                 min_duration = String (m_min (measure_durations (recorded operation calls))),
                 max_duration = String (m_max (measure_durations (recorded operation calls))),
                 total_time = String (m_total (measure_durations (recorded operation calls)))\<rparr> \<and>
         sint (word_of_nat (length (recorded operation calls)) :: 64 word) =
           int (length (recorded operation calls)) \<and>
         sint (m_total (measure_durations (recorded operation calls))) =
           sum_list (map sint (recorded operation calls)) \<and>
         sint (m_min (measure_durations (recorded operation calls))) =
           Min (sint ` set (recorded operation calls)) \<and>
         sint (m_max (measure_durations (recorded operation calls))) =
           Max (sint ` set (recorded operation calls)) \<and>
         sint (m_avg (measure_durations (recorded operation calls))) =
           sum_list (map sint (recorded operation calls)) sdiv int (length (recorded operation calls)) \<and>
         sint (m_min (measure_durations (recorded operation calls)))
           \<le> sint (m_avg (measure_durations (recorded operation calls))) \<and>
         sint (m_avg (measure_durations (recorded operation calls)))
           \<le> sint (m_max (measure_durations (recorded operation calls)))"
proof -
  let ?dbp = "\<lparr>pool = wp, operations = Map.empty, durations = Map.empty\<rparr>"
  have e: "operations ?dbp operation = None" "durations ?dbp operation = None"
    by simp_all
  from record_all_maps [of ?dbp calls operation] assms(1) e
  have o: "operations (record_all ?dbp calls) operation =
             Some (word_of_nat (length (recorded operation calls)))"
    and d: "durations (record_all ?dbp calls) operation = Some (recorded operation calls)"
    by simp_all
  have g: "GetBenchmarkStats String (record_all ?dbp calls) operation =
           Some \<lparr>count = word_of_nat (length (recorded operation calls)),
                 avg_duration = String (m_avg (measure_durations (recorded operation calls))),
                 min_duration = String (m_min (measure_durations (recorded operation calls))),
                 max_duration = String (m_max (measure_durations (recorded operation calls))),
                 total_time = String (m_total (measure_durations (recorded operation calls)))\<rparr>"
    using assms(1) by (simp add: GetBenchmarkStats_def o d Let_def)
  from sint_of_nat_small [OF assms(2)] measure_durations_spec [OF assms] g
  show ?thesis by blast
qed

text \<open>C10, as amended, at two durations of 100ns and 301ns recorded for one name.\<close>

theorem GetBenchmarkStats_measures_witness:
  "NewDatabaseBenchmarkPool 4 background 1 = Returns bench1 \<and>
   recorded ''select'' sample_calls \<noteq> [] \<and>
   length (recorded ''select'' sample_calls) < 2 ^ 63 \<and>
   - (2 ^ 63) \<le> sum_list (map sint (recorded ''select'' sample_calls)) \<and>
   sum_list (map sint (recorded ''select'' sample_calls)) < 2 ^ 63 \<and>
   GetBenchmarkStats nanos (record_all bench1 sample_calls) ''select'' =
     Some \<lparr>count = 2, avg_duration = nanos 200, min_duration = nanos 100,
           max_duration = nanos 301, total_time = nanos 401\<rparr> \<and>
   sint (m_min (measure_durations (recorded ''select'' sample_calls)))
     \<le> sint (m_avg (measure_durations (recorded ''select'' sample_calls))) \<and>
   sint (m_avg (measure_durations (recorded ''select'' sample_calls)))
     \<le> sint (m_max (measure_durations (recorded ''select'' sample_calls)))"
proof -
  have a: "recorded ''select'' sample_calls \<noteq> []"
    "length (recorded ''select'' sample_calls) < 2 ^ 63"
    "- (2 ^ 63) \<le> sum_list (map sint (recorded ''select'' sample_calls))"
    "sum_list (map sint (recorded ''select'' sample_calls)) < 2 ^ 63"
    by (simp_all add: recorded_sample)
  note inst = GetBenchmarkStats_measures [OF a, of nanos new1]
  from inst have g: "GetBenchmarkStats nanos (record_all bench1 sample_calls) ''select'' =
     Some \<lparr>count = word_of_nat (length (recorded ''select'' sample_calls)),
           avg_duration = nanos (m_avg (measure_durations (recorded ''select'' sample_calls))),
           min_duration = nanos (m_min (measure_durations (recorded ''select'' sample_calls))),
           max_duration = nanos (m_max (measure_durations (recorded ''select'' sample_calls))),
           total_time = nanos (m_total (measure_durations (recorded ''select'' sample_calls)))\<rparr>"
    unfolding bench1_def by (rule conjunct1)
  have g': "GetBenchmarkStats nanos (record_all bench1 sample_calls) ''select'' =
     Some \<lparr>count = 2, avg_duration = nanos 200, min_duration = nanos 100,
           max_duration = nanos 301, total_time = nanos 401\<rparr>"
    unfolding g recorded_sample measure_sample by simp
  from inst have o: "sint (m_min (measure_durations (recorded ''select'' sample_calls)))
     \<le> sint (m_avg (measure_durations (recorded ''select'' sample_calls)))"
    "sint (m_avg (measure_durations (recorded ''select'' sample_calls)))
     \<le> sint (m_max (measure_durations (recorded ''select'' sample_calls)))"
    by blast+
  from NewDatabaseBenchmarkPool_bench1 a g' o show ?thesis by blast
qed

text \<open>
  C10 as stated fails. Two durations of \<open>2 ^ 62\<close> nanoseconds are recorded for one name.
  Their sum \<open>2 ^ 63\<close> wraps around in \<^verbatim>\<open>int64\<close>: the total rendered is \<open>- 2 ^ 63\<close>, not the
  sum, and the average rendered is \<open>- 2 ^ 62\<close>, below the minimum \<open>2 ^ 62\<close>.
\<close>

theorem GetBenchmarkStats_overflow_counterexample:
  "NewDatabaseBenchmarkPool 4 background 1 = Returns bench1 \<and>
   GetBenchmarkStats nanos (record_all bench1 huge_calls) ''select'' =
     Some \<lparr>count = 2,
           avg_duration = nanos 13835058055282163712,
           min_duration = nanos 4611686018427387904,
           max_duration = nanos 4611686018427387904,
           total_time = nanos 9223372036854775808\<rparr> \<and>
   sint (13835058055282163712 :: Duration) = - 4611686018427387904 \<and>
   sint (4611686018427387904 :: Duration) = 4611686018427387904 \<and>
   sint (9223372036854775808 :: Duration) = - 9223372036854775808 \<and>
   sum_list (map sint (recorded ''select'' huge_calls)) = 9223372036854775808"
proof -
  have "GetBenchmarkStats nanos (record_all bench1 huge_calls) ''select'' =
     Some \<lparr>count = 2,
           avg_duration = nanos (m_avg (measure_durations [4611686018427387904, 4611686018427387904])),
           min_duration = nanos (m_min (measure_durations [4611686018427387904, 4611686018427387904])),
           max_duration = nanos (m_max (measure_durations [4611686018427387904, 4611686018427387904])),
           total_time = nanos (m_total (measure_durations [4611686018427387904, 4611686018427387904]))\<rparr>"
    by (simp add: GetBenchmarkStats_def huge_calls_def RecordOperation_def bench1_def Let_def)
  then have g: "GetBenchmarkStats nanos (record_all bench1 huge_calls) ''select'' =
     Some \<lparr>count = 2,
           avg_duration = nanos 13835058055282163712,
           min_duration = nanos 4611686018427387904,
           max_duration = nanos 4611686018427387904,
           total_time = nanos 9223372036854775808\<rparr>"
    unfolding measure_huge by simp
  have s: "sint (13835058055282163712 :: Duration) = - 4611686018427387904"
    "sint (4611686018427387904 :: Duration) = 4611686018427387904"
    "sint (9223372036854775808 :: Duration) = - 9223372036854775808"
    by simp_all
  have t: "sum_list (map sint (recorded ''select'' huge_calls)) = 9223372036854775808"
    by (simp add: recorded_huge)
  from NewDatabaseBenchmarkPool_bench1 g s t show ?thesis by blast
qed

end
